theory Spec2Isabelle
  imports Main "HOL-Library.Signed_Division" "HOL-Library.Monad_Syntax"
begin

section \<open>Strings, runes and the standard library\<close>

text \<open>
  A Go string is modelled as the list of its Unicode code points (what \<open>for _, r := range s\<close>
  and \<open>[]rune(s)\<close> see); the strings of the program are assumed to be valid UTF-8, so that
  concatenation of strings is concatenation of rune lists. Go's \<open>int\<close> is modelled as the
  unbounded \<open>int\<close>: the widths and counts of this program are far from the 64-bit bounds.
\<close>

type_synonym rune = nat
type_synonym gostring = "rune list"

definition str :: "string \<Rightarrow> gostring" where
  \<comment> \<open>An ASCII literal as a Go string.\<close>
  "str s = map of_char s"

definition space :: rune where "space = 32"
definition newline :: rune where "newline = 10"
definition escape :: rune where "escape = 27"
definition ellipsis :: rune where
  \<comment> \<open>U+2026, the tail \<open>"\<dots>"\<close> passed to every \<open>runewidth.Truncate\<close> call.\<close>
  "ellipsis = 8230"

definition Repeat :: "gostring \<Rightarrow> int \<Rightarrow> gostring option" where
  \<comment> \<open>\<open>strings.Repeat\<close>: panics (\<open>None\<close>) on a negative count.\<close>
  "Repeat s count = (if count < 0 then None else Some (concat (replicate (nat count) s)))"

fun Join :: "gostring list \<Rightarrow> gostring \<Rightarrow> gostring" where
  "Join [] sep = []"
| "Join [x] sep = x"
| "Join (x # y # ys) sep = x @ sep @ Join (y # ys) sep"

definition isSpace :: "rune \<Rightarrow> bool" where
  \<comment> \<open>\<open>unicode.IsSpace\<close>: the white space that \<open>strings.Fields\<close> splits on.\<close>
  "isSpace r \<longleftrightarrow>
     (9 \<le> r \<and> r \<le> 13) \<or> r = 32 \<or> r = 133 \<or> r = 160 \<or> r = 5760 \<or>
     (8192 \<le> r \<and> r \<le> 8202) \<or> r = 8232 \<or> r = 8233 \<or> r = 8239 \<or> r = 8287 \<or> r = 12288"

fun fieldsLoop :: "gostring \<Rightarrow> gostring \<Rightarrow> gostring list" where
  \<comment> \<open>The scan of \<open>strings.Fields\<close>; the first argument is the field being read.\<close>
  "fieldsLoop cur [] = (if cur = [] then [] else [cur])"
| "fieldsLoop cur (r # rs) =
     (if isSpace r then (if cur = [] then fieldsLoop [] rs else cur # fieldsLoop [] rs)
      else fieldsLoop (cur @ [r]) rs)"

definition Fields :: "gostring \<Rightarrow> gostring list" where
  "Fields s = fieldsLoop [] s"

fun splitLoop :: "gostring \<Rightarrow> gostring \<Rightarrow> gostring list" where
  "splitLoop cur [] = [cur]"
| "splitLoop cur (r # rs) =
     (if r = newline then cur # splitLoop [] rs else splitLoop (cur @ [r]) rs)"

definition SplitLines :: "gostring \<Rightarrow> gostring list" where
  \<comment> \<open>\<open>strings.Split(s, "\n")\<close>: always at least one element.\<close>
  "SplitLines s = splitLoop [] s"

section \<open>The width model (package go-runewidth)\<close>

text \<open>
  The program measures text with \<open>runewidth.RuneWidth\<close>, \<open>runewidth.StringWidth\<close> and
  \<open>runewidth.Truncate\<close> of the package github.com/mattn/go-runewidth, which is a dependency
  and not part of the sources. Its Unicode width table is a parameter of the model: a
  function giving the columns of every rune from U+00A0 upwards. The library gives every
  printable ASCII rune one column and every C0 and C1 control rune none, in each of its
  modes, so that part is fixed here.
\<close>

type_synonym widthTable = "rune \<Rightarrow> nat"

definition RuneWidth :: "widthTable \<Rightarrow> rune \<Rightarrow> int" where
  \<comment> \<open>Modelled from the spec: \<open>runewidth.RuneWidth\<close> is not under src/. The display width
      of one code point, 0, 1 or 2 columns by the table.\<close>
  "RuneWidth tbl r =
     (if r < 32 then 0 else if r < 127 then 1 else if r < 160 then 0 else int (tbl r))"

definition StringWidth :: "widthTable \<Rightarrow> gostring \<Rightarrow> int" where
  \<comment> \<open>Modelled from the spec: \<open>runewidth.StringWidth\<close> is not under src/. The sum of each
      code point's display width.\<close>
  "StringWidth tbl s = sum_list (map (RuneWidth tbl) s)"

fun truncateLoop :: "widthTable \<Rightarrow> int \<Rightarrow> int \<Rightarrow> gostring \<Rightarrow> gostring" where
  \<comment> \<open>The longest prefix whose width, added to the width so far, stays within \<open>w\<close>.\<close>
  "truncateLoop tbl w width [] = []"
| "truncateLoop tbl w width (r # rs) =
     (let cw = RuneWidth tbl r
      in if width + cw > w then [] else r # truncateLoop tbl w (width + cw) rs)"

definition Truncate :: "widthTable \<Rightarrow> gostring \<Rightarrow> int \<Rightarrow> gostring \<Rightarrow> gostring" where
  \<comment> \<open>Modelled from the spec: \<open>runewidth.Truncate\<close> is not under src/. A text that fits
      the budget is returned as it is; otherwise the result is the longest prefix whose width
      plus the marker's width does not exceed the budget, followed by the marker.\<close>
  "Truncate tbl s w tail =
     (if StringWidth tbl s \<le> w then s
      else truncateLoop tbl (w - StringWidth tbl tail) 0 s @ tail)"

definition isLetter :: "rune \<Rightarrow> bool" where
  "isLetter r \<longleftrightarrow> (97 \<le> r \<and> r \<le> 122) \<or> (65 \<le> r \<and> r \<le> 90)"

fun stripLoop :: "bool \<Rightarrow> gostring \<Rightarrow> gostring" where
  \<comment> \<open>The loop of \<open>StripANSI\<close>; the flag is \<open>inEscape\<close>.\<close>
  "stripLoop inEscape [] = []"
| "stripLoop inEscape (r # rs) =
     (if r = escape then stripLoop True rs
      else if inEscape then (if isLetter r then stripLoop False rs else stripLoop True rs)
      else r # stripLoop False rs)"

definition StripANSI :: "gostring \<Rightarrow> gostring" where
  "StripANSI s = stripLoop False s"

definition MeasureText :: "widthTable \<Rightarrow> gostring \<Rightarrow> int" where
  "MeasureText tbl text = StringWidth tbl (StripANSI text)"

section \<open>The line layout engine (core.Renderer)\<close>

type_synonym Alignment = int

definition AlignLeft :: Alignment where "AlignLeft = 0"
definition AlignCenter :: Alignment where "AlignCenter = 1"
definition AlignRight :: Alignment where "AlignRight = 2"

definition PadText :: "widthTable \<Rightarrow> gostring \<Rightarrow> int \<Rightarrow> Alignment \<Rightarrow> gostring option" where
  "PadText tbl text width align =
     (if width \<le> 0 then Some text
      else let textWidth = StringWidth tbl text
      in if textWidth \<ge> width then Some (Truncate tbl text width [ellipsis])
      else let padding = width - textWidth
      in if align = AlignLeft then
           do { r \<leftarrow> Repeat [space] padding; Some (text @ r) }
         else if align = AlignRight then
           do { l \<leftarrow> Repeat [space] padding; Some (l @ text) }
         else if align = AlignCenter then
           (let leftPad = padding sdiv 2; rightPad = padding - leftPad
            in do { l \<leftarrow> Repeat [space] leftPad; r \<leftarrow> Repeat [space] rightPad;
                    Some (l @ text @ r) })
         else do { r \<leftarrow> Repeat [space] padding; Some (text @ r) })"

fun wrapLoop :: "widthTable \<Rightarrow> int \<Rightarrow> gostring list \<Rightarrow> gostring \<Rightarrow> gostring list
                 \<Rightarrow> gostring list \<times> gostring" where
  \<comment> \<open>The loop over the words, shared by \<open>Renderer.WrapText\<close> and \<open>Box.wrapContent\<close>;
      the state is (lines, currentLine).\<close>
  "wrapLoop tbl width lines currentLine [] = (lines, currentLine)"
| "wrapLoop tbl width lines currentLine (word # ws) =
     (let testLine = (if currentLine \<noteq> [] then currentLine @ [space] else currentLine) @ word
      in if StringWidth tbl testLine \<le> width then wrapLoop tbl width lines testLine ws
         else if currentLine \<noteq> [] then wrapLoop tbl width (lines @ [currentLine]) word ws
         else wrapLoop tbl width (lines @ [Truncate tbl word width [ellipsis]]) [] ws)"

definition WrapText :: "widthTable \<Rightarrow> gostring \<Rightarrow> int \<Rightarrow> gostring list" where
  "WrapText tbl text width =
     (if width \<le> 0 then [text]
      else let words = Fields text
      in if words = [] then [[]]
      else case wrapLoop tbl width [] [] words of
             (lines, currentLine) \<Rightarrow>
               if currentLine \<noteq> [] then lines @ [currentLine] else lines)"

definition TruncateText :: "widthTable \<Rightarrow> gostring \<Rightarrow> int \<Rightarrow> gostring" where
  "TruncateText tbl text width =
     (if width \<le> 0 then [] else Truncate tbl text width [ellipsis])"

definition RepeatChar :: "widthTable \<Rightarrow> rune \<Rightarrow> int \<Rightarrow> gostring option" where
  "RepeatChar tbl char width =
     (if width \<le> 0 then Some []
      else let charWidth = RuneWidth tbl char;
               charWidth = (if charWidth = 0 then 1 else charWidth);
               count = width sdiv charWidth
      in Repeat [char] count)"

section \<open>Decoration (package fatih/color) and the theme\<close>

text \<open>
  \<open>style.Color\<close> is \<open>color.Color\<close> of the package github.com/fatih/color, a dependency
  that is not part of the sources. A colour holds the SGR parameters it switches on, the
  parameters that switch them off again, and whether colour output is disabled.
\<close>

record Color =
  colorParams :: "nat list"
  resetParams :: "nat list"
  noColor :: bool

fun itoa :: "nat \<Rightarrow> gostring" where
  \<comment> \<open>\<open>strconv.Itoa\<close> on a non-negative number: its decimal digits.\<close>
  "itoa n = (if n < 10 then [48 + n] else itoa (n div 10) @ [48 + n mod 10])"

declare itoa.simps [simp del]

definition sequence :: "nat list \<Rightarrow> gostring" where
  "sequence ps = Join (map itoa ps) [59]"

definition Sprint :: "Color \<Rightarrow> gostring \<Rightarrow> gostring" where
  \<comment> \<open>Modelled from the spec: \<open>color.Color.Sprint\<close> is not under src/. Decoration wraps
      the text, it does not replace visible glyphs: the text stands between the escape
      sequence \<open>ESC [ params m\<close> and the escape sequence that resets it, or is returned
      as it is when colour is disabled.\<close>
  "Sprint c text =
     (if noColor c then text
      else [escape, 91] @ sequence (colorParams c) @ [109] @ text
           @ [escape, 91] @ sequence (resetParams c) @ [109])"

definition colorNew :: "nat list \<Rightarrow> Color" where
  \<comment> \<open>\<open>color.New(attrs...)\<close> with colour output enabled and the plain reset.\<close>
  "colorNew ps = \<lparr>colorParams = ps, resetParams = [0], noColor = False\<rparr>"

record Theme =
  Primary :: Color
  Secondary :: Color
  Success :: Color
  Warning :: Color
  Error :: Color
  Muted :: Color
  Accent1 :: Color
  Accent2 :: Color
  Accent3 :: Color
  Bold :: Color
  Italic :: Color
  Underline :: Color
  Faint :: Color
  Border :: Color
  Header :: Color
  Footer :: Color
  Selected :: Color
  Disabled :: Color

definition NewTheme :: Theme where
  "NewTheme =
     \<lparr>Primary = colorNew [96, 1], Secondary = colorNew [94], Success = colorNew [92, 1],
      Warning = colorNew [93], Error = colorNew [91, 1], Muted = colorNew [90],
      Accent1 = colorNew [95], Accent2 = colorNew [96], Accent3 = colorNew [97],
      Bold = colorNew [1], Italic = colorNew [3], Underline = colorNew [4], Faint = colorNew [2],
      Border = colorNew [96], Header = colorNew [97, 1], Footer = colorNew [90],
      Selected = colorNew [95], Disabled = colorNew [90]\<rparr>"

definition DefaultTheme :: Theme where
  "DefaultTheme = NewTheme"

subsection \<open>Box drawing symbols (style/symbols.go)\<close>

definition BoxTopLeft :: gostring where "BoxTopLeft = [9581]"
definition BoxTopRight :: gostring where "BoxTopRight = [9582]"
definition BoxBottomLeft :: gostring where "BoxBottomLeft = [9584]"
definition BoxBottomRight :: gostring where "BoxBottomRight = [9583]"
definition BoxHorizontal :: gostring where "BoxHorizontal = [9472]"
definition BoxVertical :: gostring where "BoxVertical = [9474]"
definition BoxTee :: gostring where "BoxTee = [9500]"
definition BoxCross :: gostring where "BoxCross = [9532]"
definition BoxTeeRight :: gostring where "BoxTeeRight = [9508]"
definition BoxTeeTop :: gostring where "BoxTeeTop = [9516]"
definition BoxTeeBottom :: gostring where "BoxTeeBottom = [9524]"

section \<open>The base component (core.Component)\<close>

text \<open>
  The fields of the records carry a prefix, since \<open>width\<close>, \<open>border\<close> and the like are
  also the names of local variables of the functions below.
\<close>

record Component =
  comp_width :: int
  comp_height :: int
  comp_hidden :: bool

definition NewComponent :: Component where
  "NewComponent = \<lparr>comp_width = - 1, comp_height = - 1, comp_hidden = False\<rparr>"

definition GetWidth :: "Component \<Rightarrow> int" where "GetWidth c = comp_width c"
definition GetHeight :: "Component \<Rightarrow> int" where "GetHeight c = comp_height c"
definition IsHidden :: "Component \<Rightarrow> bool" where "IsHidden c = comp_hidden c"
definition Hide :: "Component \<Rightarrow> Component" where "Hide c = c\<lparr>comp_hidden := True\<rparr>"
definition Show :: "Component \<Rightarrow> Component" where "Show c = c\<lparr>comp_hidden := False\<rparr>"

fun sequenceOpt :: "'a option list \<Rightarrow> 'a list option" where
  \<comment> \<open>Runs a list of steps of which each may panic; the first panic ends the run.\<close>
  "sequenceOpt [] = Some []"
| "sequenceOpt (x # xs) = do { y \<leftarrow> x; ys \<leftarrow> sequenceOpt xs; Some (y # ys) }"

section \<open>The table composer (ui.Table)\<close>

record Table =
  tab_component :: Component
  tab_headers :: "gostring list"
  tab_rows :: "gostring list list"
  tab_columnWidths :: "int list"
  tab_border :: bool
  tab_borderStyle :: "Color option"
  tab_headerStyle :: "Color option"
  tab_rowStyle :: "Color option"
  tab_altRowStyle :: "Color option"
  tab_alignment :: "Alignment list"

definition NewTable :: Table where
  "NewTable =
     \<lparr>tab_component = NewComponent, tab_headers = [], tab_rows = [], tab_columnWidths = [],
      tab_border = True, tab_borderStyle = None, tab_headerStyle = None, tab_rowStyle = None,
      tab_altRowStyle = None, tab_alignment = [AlignLeft]\<rparr>"

definition Headers :: "widthTable \<Rightarrow> Table \<Rightarrow> gostring list \<Rightarrow> Table" where
  "Headers tbl t headers =
     (let t = t\<lparr>tab_headers := headers\<rparr>;
          t = (if length (tab_columnWidths t) = 0
               then t\<lparr>tab_columnWidths := map (StringWidth tbl) headers\<rparr> else t)
      in if length (tab_alignment t) < length headers
         then t\<lparr>tab_alignment := tab_alignment t
                @ replicate (length headers - length (tab_alignment t)) AlignLeft\<rparr>
         else t)"

fun updateLoop :: "widthTable \<Rightarrow> nat \<Rightarrow> gostring list \<Rightarrow> int list \<Rightarrow> int list" where
  \<comment> \<open>The loop of \<open>updateColumnWidthsForRow\<close> from cell index \<open>i\<close> on.\<close>
  "updateLoop tbl i [] columnWidths = columnWidths"
| "updateLoop tbl i (cell # cells) columnWidths =
     updateLoop tbl (Suc i) cells
       (if i < length columnWidths
        then (let cellWidth = StringWidth tbl cell
              in if cellWidth > columnWidths ! i then columnWidths[i := cellWidth]
                 else columnWidths)
        else columnWidths)"

definition updateColumnWidthsForRow :: "widthTable \<Rightarrow> Table \<Rightarrow> gostring list \<Rightarrow> Table" where
  "updateColumnWidthsForRow tbl t row =
     t\<lparr>tab_columnWidths := updateLoop tbl 0 row (tab_columnWidths t)\<rparr>"

fun headerLoop :: "widthTable \<Rightarrow> nat \<Rightarrow> gostring list \<Rightarrow> int list \<Rightarrow> int list" where
  "headerLoop tbl i [] columnWidths = columnWidths"
| "headerLoop tbl i (header # hs) columnWidths =
     headerLoop tbl (Suc i) hs
       (if i < length columnWidths then columnWidths[i := StringWidth tbl header]
        else columnWidths)"

definition calculateColumnWidths :: "widthTable \<Rightarrow> Table \<Rightarrow> Table" where
  "calculateColumnWidths tbl t =
     (let t = (if length (tab_columnWidths t) = 0
               then t\<lparr>tab_columnWidths := replicate (length (tab_headers t)) 0\<rparr> else t);
          t = t\<lparr>tab_columnWidths := headerLoop tbl 0 (tab_headers t) (tab_columnWidths t)\<rparr>
      in fold (\<lambda>row t. updateColumnWidthsForRow tbl t row) (tab_rows t) t)"

definition Rows :: "widthTable \<Rightarrow> Table \<Rightarrow> gostring list list \<Rightarrow> Table" where
  "Rows tbl t rows = calculateColumnWidths tbl (t\<lparr>tab_rows := rows\<rparr>)"

definition AddRow :: "widthTable \<Rightarrow> Table \<Rightarrow> gostring list \<Rightarrow> Table" where
  "AddRow tbl t row = updateColumnWidthsForRow tbl (t\<lparr>tab_rows := tab_rows t @ [row]\<rparr>) row"

definition ColumnWidths :: "Table \<Rightarrow> int list \<Rightarrow> Table" where
  "ColumnWidths t widths = t\<lparr>tab_columnWidths := widths\<rparr>"

definition getAlignment :: "Table \<Rightarrow> nat \<Rightarrow> Alignment" where
  "getAlignment t colIndex =
     (if colIndex < length (tab_alignment t) then tab_alignment t ! colIndex else AlignLeft)"

fun ruleParts :: "Color \<Rightarrow> gostring \<Rightarrow> nat \<Rightarrow> int list \<Rightarrow> gostring list option" where
  \<comment> \<open>The loop over the column widths that the three border lines share; \<open>tee\<close> is the
      glyph at a column boundary.\<close>
  "ruleParts borderColor tee i [] = Some []"
| "ruleParts borderColor tee i (width # ws) =
     do { seg \<leftarrow> Repeat BoxHorizontal (width + 2);
          rest \<leftarrow> ruleParts borderColor tee (Suc i) ws;
          Some ((if i > 0 then [Sprint borderColor tee] else [])
                @ [Sprint borderColor seg] @ rest) }"

definition renderTopBorder :: "Table \<Rightarrow> Color \<Rightarrow> gostring option" where
  "renderTopBorder t borderColor =
     do { parts \<leftarrow> ruleParts borderColor BoxTeeTop 0 (tab_columnWidths t);
          Some (Join ([Sprint borderColor BoxTopLeft] @ parts
                      @ [Sprint borderColor BoxTopRight]) []) }"

definition renderBottomBorder :: "Table \<Rightarrow> Color \<Rightarrow> gostring option" where
  "renderBottomBorder t borderColor =
     do { parts \<leftarrow> ruleParts borderColor BoxTeeBottom 0 (tab_columnWidths t);
          Some (Join ([Sprint borderColor BoxBottomLeft] @ parts
                      @ [Sprint borderColor BoxBottomRight]) []) }"

definition renderSeparator :: "Table \<Rightarrow> Color \<Rightarrow> gostring option" where
  "renderSeparator t borderColor =
     do { parts \<leftarrow> ruleParts borderColor BoxCross 0 (tab_columnWidths t);
          Some (Join ([Sprint borderColor BoxTee] @ parts
                      @ [Sprint borderColor BoxTeeRight]) []) }"

definition renderCell :: "widthTable \<Rightarrow> Table \<Rightarrow> gostring list \<Rightarrow> Color \<Rightarrow> nat \<Rightarrow> int
                          \<Rightarrow> gostring option" where
  \<comment> \<open>The body that \<open>renderRow\<close> and \<open>renderRowNoBorder\<close> run for each column: the styled,
      padded cell of column \<open>i\<close>.\<close>
  "renderCell tbl t cells cellColor i width =
     (let cell = (if i < length cells then cells ! i else []);
          cell = (if StringWidth tbl cell > width then Truncate tbl cell width [ellipsis]
                  else cell);
          alignment = getAlignment t i
      in do { paddedCell \<leftarrow> PadText tbl cell width alignment;
              Some (Sprint cellColor paddedCell) })"

fun rowParts :: "widthTable \<Rightarrow> Table \<Rightarrow> gostring list \<Rightarrow> Color \<Rightarrow> Color \<Rightarrow> nat \<Rightarrow> int list
                 \<Rightarrow> gostring list option" where
  "rowParts tbl t cells cellColor borderColor i [] = Some []"
| "rowParts tbl t cells cellColor borderColor i (width # ws) =
     do { styledCell \<leftarrow> renderCell tbl t cells cellColor i width;
          rest \<leftarrow> rowParts tbl t cells cellColor borderColor (Suc i) ws;
          Some ([[space] @ styledCell @ [space], Sprint borderColor BoxVertical] @ rest) }"

definition renderRow :: "widthTable \<Rightarrow> Table \<Rightarrow> gostring list \<Rightarrow> Color \<Rightarrow> Color \<Rightarrow> bool
                         \<Rightarrow> gostring option" where
  "renderRow tbl t cells cellColor borderColor isHeader =
     do { parts \<leftarrow> rowParts tbl t cells cellColor borderColor 0 (tab_columnWidths t);
          Some (Join ([Sprint borderColor BoxVertical] @ parts) []) }"

fun rowPartsNoBorder :: "widthTable \<Rightarrow> Table \<Rightarrow> gostring list \<Rightarrow> Color \<Rightarrow> nat \<Rightarrow> int list
                         \<Rightarrow> gostring list option" where
  "rowPartsNoBorder tbl t cells cellColor i [] = Some []"
| "rowPartsNoBorder tbl t cells cellColor i (width # ws) =
     do { styledCell \<leftarrow> renderCell tbl t cells cellColor i width;
          rest \<leftarrow> rowPartsNoBorder tbl t cells cellColor (Suc i) ws;
          Some (styledCell # rest) }"

definition renderRowNoBorder :: "widthTable \<Rightarrow> Table \<Rightarrow> gostring list \<Rightarrow> Color
                                 \<Rightarrow> gostring option" where
  "renderRowNoBorder tbl t cells cellColor =
     do { parts \<leftarrow> rowPartsNoBorder tbl t cells cellColor 0 (tab_columnWidths t);
          Some (Join parts [space]) }"

definition getTotalWidth :: "Table \<Rightarrow> int" where
  "getTotalWidth t =
     (let total = sum_list (tab_columnWidths t)
      in if length (tab_columnWidths t) > 1
         then total + (int (length (tab_columnWidths t)) - 1) else total)"

definition Table_Render :: "widthTable \<Rightarrow> Table \<Rightarrow> Theme \<Rightarrow> gostring option" where
  "Table_Render tbl t theme =
     (if IsHidden (tab_component t) \<or> length (tab_headers t) = 0 then Some []
      else
        let borderColor = (case tab_borderStyle t of None \<Rightarrow> Border theme | Some c \<Rightarrow> c);
            headerColor = (case tab_headerStyle t of None \<Rightarrow> Header theme | Some c \<Rightarrow> c);
            rowColor = (case tab_rowStyle t of None \<Rightarrow> Primary theme | Some c \<Rightarrow> c);
            altRowColor = (case tab_altRowStyle t of None \<Rightarrow> Secondary theme | Some c \<Rightarrow> c);
            color = (\<lambda>i. if i mod 2 = (0::nat) then rowColor else altRowColor)
        in if tab_border t then
             do { top \<leftarrow> renderTopBorder t borderColor;
                  header \<leftarrow> renderRow tbl t (tab_headers t) headerColor borderColor True;
                  sep \<leftarrow> renderSeparator t borderColor;
                  rows \<leftarrow> sequenceOpt (map (\<lambda>(i, row). renderRow tbl t row (color i) borderColor False)
                                           (enumerate 0 (tab_rows t)));
                  bottom \<leftarrow> renderBottomBorder t borderColor;
                  Some (Join ([top, header, sep] @ rows @ [bottom]) [newline]) }
           else
             do { header \<leftarrow> renderRowNoBorder tbl t (tab_headers t) headerColor;
                  rule \<leftarrow> Repeat [45] (getTotalWidth t);
                  rows \<leftarrow> sequenceOpt (map (\<lambda>(i, row). renderRowNoBorder tbl t row (color i))
                                           (enumerate 0 (tab_rows t)));
                  Some (Join ([header, rule] @ rows) [newline]) })"

section \<open>The box composer (ui.Box)\<close>

record Box =
  box_component :: Component
  box_title :: gostring
  box_content :: gostring
  box_padding :: int
  box_border :: bool
  box_borderStyle :: "Color option"
  box_titleStyle :: "Color option"
  box_contentStyle :: "Color option"

definition NewBox :: Box where
  "NewBox =
     \<lparr>box_component = NewComponent, box_title = [], box_content = [], box_padding = 1,
      box_border = True, box_borderStyle = None, box_titleStyle = None,
      box_contentStyle = None\<rparr>"

fun maxLineWidth :: "widthTable \<Rightarrow> int \<Rightarrow> gostring list \<Rightarrow> int" where
  "maxLineWidth tbl maxWidth [] = maxWidth"
| "maxLineWidth tbl maxWidth (line # ls) =
     (let lineWidth = StringWidth tbl line
      in maxLineWidth tbl (if lineWidth > maxWidth then lineWidth else maxWidth) ls)"

definition calculateWidth :: "widthTable \<Rightarrow> Box \<Rightarrow> int" where
  "calculateWidth tbl b =
     (let maxWidth = maxLineWidth tbl (StringWidth tbl (box_title b)) (SplitLines (box_content b))
      in maxWidth + (box_padding b * 2) + 2)"

fun countLines :: "widthTable \<Rightarrow> int \<Rightarrow> int \<Rightarrow> gostring list \<Rightarrow> int" where
  \<comment> \<open>The loop of \<open>calculateHeight\<close>; the second argument is \<open>totalLines\<close>.\<close>
  "countLines tbl contentWidth totalLines [] = totalLines"
| "countLines tbl contentWidth totalLines (line # ls) =
     (if line = [] then countLines tbl contentWidth (totalLines + 1) ls
      else let lineWidth = StringWidth tbl line;
               wrappedLines = (lineWidth + contentWidth - 1) sdiv contentWidth;
               wrappedLines = (if wrappedLines = 0 then 1 else wrappedLines)
           in countLines tbl contentWidth (totalLines + wrappedLines) ls)"

definition calculateHeight :: "widthTable \<Rightarrow> Box \<Rightarrow> int \<Rightarrow> int" where
  "calculateHeight tbl b width =
     (let contentWidth = width - (box_padding b * 2) - 2;
          contentWidth = (if contentWidth \<le> 0 then 1 else contentWidth);
          totalLines = countLines tbl contentWidth 0 (SplitLines (box_content b));
          height = totalLines + (box_padding b * 2) + 2
      in if box_title b \<noteq> [] then height + 1 else height)"

fun wrapLines :: "widthTable \<Rightarrow> int \<Rightarrow> gostring list \<Rightarrow> gostring list \<Rightarrow> gostring list" where
  \<comment> \<open>The outer loop of \<open>wrapContent\<close> over the lines of the content; the third argument
      is \<open>result\<close>.\<close>
  "wrapLines tbl width result [] = result"
| "wrapLines tbl width result (line # ls) =
     (if line = [] then wrapLines tbl width (result @ [[]]) ls
      else let words = Fields line
      in if words = [] then wrapLines tbl width (result @ [[]]) ls
      else case wrapLoop tbl width result [] words of
             (result, currentLine) \<Rightarrow>
               wrapLines tbl width
                 (if currentLine \<noteq> [] then result @ [currentLine] else result) ls)"

definition wrapContent :: "widthTable \<Rightarrow> Box \<Rightarrow> int \<Rightarrow> gostring list" where
  "wrapContent tbl b width =
     (if width \<le> 0 then [box_content b]
      else wrapLines tbl width [] (SplitLines (box_content b)))"

definition topBorder :: "widthTable \<Rightarrow> Box \<Rightarrow> Color \<Rightarrow> Color \<Rightarrow> int \<Rightarrow> gostring option" where
  \<comment> \<open>The first line of \<open>renderWithBorder\<close>: the top border, with the title when there is
      one.\<close>
  "topBorder tbl b borderColor titleColor width =
     (if box_title b \<noteq> [] then
        let titleStr = box_title b;
            titleWidth = StringWidth tbl titleStr;
            availableWidth = width - 2;
            maxTitleWidth = availableWidth - 4;
            (titleStr, titleWidth) =
               (if titleWidth > maxTitleWidth
                then (Truncate tbl titleStr maxTitleWidth [ellipsis], maxTitleWidth)
                else (titleStr, titleWidth));
            totalPadding = availableWidth - titleWidth - 4;
            leftPadding = totalPadding sdiv 2;
            rightPadding = totalPadding - leftPadding
        in do { l \<leftarrow> Repeat (Sprint borderColor BoxHorizontal) leftPadding;
                r \<leftarrow> Repeat (Sprint borderColor BoxHorizontal) rightPadding;
                Some (Sprint borderColor BoxTopLeft @ l
                      @ Sprint borderColor (str ''[ '') @ Sprint titleColor titleStr
                      @ Sprint borderColor (str '' ]'') @ r
                      @ Sprint borderColor BoxTopRight) }
      else
        do { h \<leftarrow> Repeat (Sprint borderColor BoxHorizontal) (width - 2);
             Some (Sprint borderColor BoxTopLeft @ h @ Sprint borderColor BoxTopRight) })"

definition paddingLine :: "Color \<Rightarrow> int \<Rightarrow> gostring option" where
  "paddingLine borderColor width =
     do { sp \<leftarrow> Repeat [space] (width - 2);
          Some (Sprint borderColor BoxVertical @ sp @ Sprint borderColor BoxVertical) }"

definition paddingRows :: "Box \<Rightarrow> Color \<Rightarrow> int \<Rightarrow> gostring list option" where
  \<comment> \<open>The loop \<open>for i := 0; i < b.padding; i++\<close> that adds the blank rows.\<close>
  "paddingRows b borderColor width =
     sequenceOpt (replicate (nat (box_padding b)) (paddingLine borderColor width))"

definition contentRow :: "widthTable \<Rightarrow> Box \<Rightarrow> Color \<Rightarrow> Color \<Rightarrow> int \<Rightarrow> gostring list \<Rightarrow> nat
                          \<Rightarrow> gostring option" where
  \<comment> \<open>The body of the loop that adds the content lines, at index \<open>i\<close>.\<close>
  "contentRow tbl b borderColor contentColor contentWidth contentLines i =
     (let line = (if i < length contentLines then Sprint contentColor (contentLines ! i)
                  else []);
          lineWidth = StringWidth tbl (StripANSI line);
          padding = contentWidth - lineWidth
      in do { fill \<leftarrow> (if padding > 0 then Repeat [space] padding else Some []);
              l \<leftarrow> Repeat [space] (box_padding b);
              r \<leftarrow> Repeat [space] (box_padding b);
              Some (Sprint borderColor BoxVertical @ l @ (line @ fill) @ r
                    @ Sprint borderColor BoxVertical) })"

definition bottomBorder :: "Color \<Rightarrow> int \<Rightarrow> gostring option" where
  "bottomBorder borderColor width =
     do { h \<leftarrow> Repeat (Sprint borderColor BoxHorizontal) (width - 2);
          Some (Sprint borderColor BoxBottomLeft @ h @ Sprint borderColor BoxBottomRight) }"

definition borderedLines :: "widthTable \<Rightarrow> Box \<Rightarrow> Theme \<Rightarrow> int \<Rightarrow> int \<Rightarrow> gostring list option" where
  \<comment> \<open>The slice \<open>result\<close> of \<open>renderWithBorder\<close> when the box is at least 3 by 3.\<close>
  "borderedLines tbl b theme width height =
     (let borderColor = (case box_borderStyle b of None \<Rightarrow> Border theme | Some c \<Rightarrow> c);
          titleColor = (case box_titleStyle b of None \<Rightarrow> Header theme | Some c \<Rightarrow> c);
          contentColor = (case box_contentStyle b of None \<Rightarrow> Primary theme | Some c \<Rightarrow> c);
          contentWidth = width - 2 - (box_padding b * 2);
          contentWidth = (if contentWidth \<le> 0 then 1 else contentWidth);
          contentLines = wrapContent tbl b contentWidth;
          contentHeight = height - 2;
          contentHeight = contentHeight - int (nat (box_padding b))
      in do { top \<leftarrow> topBorder tbl b borderColor titleColor width;
              above \<leftarrow> paddingRows b borderColor width;
              body \<leftarrow> sequenceOpt
                        (map (contentRow tbl b borderColor contentColor contentWidth contentLines)
                             [0..<nat (contentHeight - box_padding b)]);
              below \<leftarrow> paddingRows b borderColor width;
              bottom \<leftarrow> bottomBorder borderColor width;
              Some ([top] @ above @ body @ below @ [bottom]) })"

definition renderWithBorder :: "widthTable \<Rightarrow> Box \<Rightarrow> Theme \<Rightarrow> int \<Rightarrow> int \<Rightarrow> gostring option" where
  "renderWithBorder tbl b theme width height =
     (if width < 3 \<or> height < 3 then Some (box_content b)
      else do { result \<leftarrow> borderedLines tbl b theme width height;
                Some (Join result [newline]) })"

definition renderWithoutBorder :: "widthTable \<Rightarrow> Box \<Rightarrow> Theme \<Rightarrow> int \<Rightarrow> int \<Rightarrow> gostring option" where
  "renderWithoutBorder tbl b theme width height =
     (let contentColor = (case box_contentStyle b of None \<Rightarrow> Primary theme | Some c \<Rightarrow> c);
          titleColor = (case box_titleStyle b of None \<Rightarrow> Header theme | Some c \<Rightarrow> c);
          result = (if box_title b \<noteq> [] then [Sprint titleColor (box_title b)] else []);
          contentWidth = width - (box_padding b * 2);
          contentWidth = (if contentWidth \<le> 0 then width else contentWidth);
          contentLines = wrapContent tbl b contentWidth
      in do { body \<leftarrow> sequenceOpt
                        (map (\<lambda>line. do { l \<leftarrow> Repeat [space] (box_padding b);
                                          Some (l @ Sprint contentColor line) })
                             contentLines);
              Some (Join (result @ body) [newline]) })"

definition resolveWidth :: "widthTable \<Rightarrow> Box \<Rightarrow> int" where
  \<comment> \<open>The width that \<open>Box.Render\<close> works with: the explicit one, else the computed one.\<close>
  "resolveWidth tbl b =
     (let width = GetWidth (box_component b)
      in if width \<le> 0 then calculateWidth tbl b else width)"

definition resolveHeight :: "widthTable \<Rightarrow> Box \<Rightarrow> int \<Rightarrow> int" where
  "resolveHeight tbl b width =
     (let height = GetHeight (box_component b)
      in if height \<le> 0 then calculateHeight tbl b width else height)"

definition Box_Render :: "widthTable \<Rightarrow> Box \<Rightarrow> Theme \<Rightarrow> gostring option" where
  "Box_Render tbl b theme =
     (if IsHidden (box_component b) then Some []
      else let width = resolveWidth tbl b;
               height = resolveHeight tbl b width
      in if \<not> box_border b then renderWithoutBorder tbl b theme width height
         else renderWithBorder tbl b theme width height)"

section \<open>Auxiliary predicates and sample inputs\<close>

definition sampleTable :: widthTable where
  \<comment> \<open>A width table for the examples: two columns for the CJK unified ideographs, one
      column for every other rune above ASCII, as the library has it outside its East Asian
      mode for the runes the examples use.\<close>
  "sampleTable r = (if 19968 \<le> r \<and> r \<le> 40959 then 2 else 1)"

definition hasSuffix :: "gostring \<Rightarrow> gostring \<Rightarrow> bool" where
  \<comment> \<open>\<open>strings.HasSuffix\<close>.\<close>
  "hasSuffix s suffix \<longleftrightarrow>
     length suffix \<le> length s \<and> drop (length s - length suffix) s = suffix"

definition staffTable :: Table where
  \<comment> \<open>\<open>NewTable().Headers("Name", "Role")\<close>.\<close>
  "staffTable = Headers sampleTable NewTable [str ''Name'', str ''Role'']"

definition wrapBox :: Box where
  \<comment> \<open>\<open>NewBox().Content("aa bb cc").Width(8)\<close>: padding 1, no title, automatic height.\<close>
  "wrapBox = NewBox\<lparr>box_content := str ''aa bb cc'',
                    box_component := NewComponent\<lparr>comp_width := 8\<rparr>\<rparr>"

definition narrowGlyphs :: "widthTable \<Rightarrow> bool" where
  \<comment> \<open>The table gives one column to each of the six glyphs a box is drawn with.\<close>
  "narrowGlyphs tbl \<longleftrightarrow>
     list_all (\<lambda>g. tbl g = 1)
       (BoxTopLeft @ BoxTopRight @ BoxBottomLeft @ BoxBottomRight @ BoxHorizontal @ BoxVertical)"

definition titledBox :: Box where
  \<comment> \<open>\<open>NewBox().Title("Long Title").Content("Test content").Width(12)\<close>.\<close>
  "titledBox = NewBox\<lparr>box_title := str ''Long Title'', box_content := str ''Test content'',
                      box_component := NewComponent\<lparr>comp_width := 12\<rparr>\<rparr>"

definition tinyBox :: Box where
  \<comment> \<open>\<open>NewBox().Content("hello").Width(2)\<close>.\<close>
  "tinyBox = NewBox\<lparr>box_content := str ''hello'',
                    box_component := NewComponent\<lparr>comp_width := 2\<rparr>\<rparr>"

definition cjkBox :: Box where
  \<comment> \<open>A box of automatic size whose title is three CJK ideographs, each two columns
      wide, with the content \<open>"x"\<close>.\<close>
  "cjkBox = NewBox\<lparr>box_title := [20320, 22909, 21527], box_content := str ''x''\<rparr>"

definition wideBox :: Box where
  \<comment> \<open>\<open>NewBox().Content("a bbbbbbbb").Width(7)\<close>.\<close>
  "wideBox = NewBox\<lparr>box_content := str ''a bbbbbbbb'',
                    box_component := NewComponent\<lparr>comp_width := 7\<rparr>\<rparr>"

definition colouredHi :: gostring where
  \<comment> \<open>The text \<open>"hi"\<close> in red: \<open>"\x1b[31mhi\x1b[0m"\<close>.\<close>
  "colouredHi = [27, 91, 51, 49, 109] @ str ''hi'' @ [27, 91, 48, 109]"

definition colouredHello :: gostring where
  \<comment> \<open>The text \<open>"hello"\<close> in red: \<open>"\x1b[31mhello\x1b[0m"\<close>.\<close>
  "colouredHello = [27, 91, 51, 49, 109] @ str ''hello'' @ [27, 91, 48, 109]"

definition narrowTableGlyphs :: "widthTable \<Rightarrow> bool" where
  \<comment> \<open>The table gives one column to each of the eleven glyphs a table is drawn with.\<close>
  "narrowTableGlyphs tbl \<longleftrightarrow>
     list_all (\<lambda>g. tbl g = 1)
       (BoxTopLeft @ BoxTopRight @ BoxBottomLeft @ BoxBottomRight @ BoxHorizontal @ BoxVertical
        @ BoxTee @ BoxCross @ BoxTeeRight @ BoxTeeTop @ BoxTeeBottom)"

definition stripsTo :: "gostring \<Rightarrow> gostring \<Rightarrow> bool" where
  \<comment> \<open>Wherever \<open>s\<close> stands outside an escape sequence, \<open>StripANSI\<close> turns it into \<open>p\<close> and
      is outside an escape sequence again after it.\<close>
  "stripsTo s p \<longleftrightarrow> (\<forall>rest. stripLoop False (s @ rest) = p @ stripLoop False rest)"

definition fixedTable :: Table where
  \<comment> \<open>\<open>NewTable().Headers("Name", "Role").AddRow("Alice", "Developer")\<close>.\<close>
  "fixedTable = AddRow sampleTable staffTable [str ''Alice'', str ''Developer'']"

definition colouredFail :: gostring where
  \<comment> \<open>The text \<open>"FAIL"\<close> in red: \<open>"\x1b[31mFAIL\x1b[0m"\<close>.\<close>
  "colouredFail = [27, 91, 51, 49, 109] @ str ''FAIL'' @ [27, 91, 48, 109]"

section \<open>Widths, repetition and division\<close>

lemma RuneWidth_nonneg: "0 \<le> RuneWidth tbl r"
  by (simp add: RuneWidth_def)

lemma StringWidth_nonneg: "0 \<le> StringWidth tbl s"
  unfolding StringWidth_def by (induction s) (simp_all add: RuneWidth_nonneg)

lemma StringWidth_Nil: "StringWidth tbl [] = 0"
  by (simp add: StringWidth_def)

lemma StringWidth_Cons: "StringWidth tbl (r # s) = RuneWidth tbl r + StringWidth tbl s"
  by (simp add: StringWidth_def)

lemma StringWidth_append: "StringWidth tbl (s @ t) = StringWidth tbl s + StringWidth tbl t"
  by (simp add: StringWidth_def)

lemma StringWidth_spaces: "StringWidth tbl (replicate n space) = int n"
  by (induction n) (simp_all add: StringWidth_def RuneWidth_def space_def)

lemma Repeat_space: "0 \<le> n \<Longrightarrow> Repeat [space] n = Some (replicate (nat n) space)"
  by (simp add: Repeat_def)

lemma sdiv_nonneg: "0 \<le> a \<Longrightarrow> 0 < b \<Longrightarrow> a sdiv b = a div (b::int)"
  by (simp add: signed_divide_int_def sgn_if)

lemma Truncate_fits: "StringWidth tbl s \<le> w \<Longrightarrow> Truncate tbl s w tail = s"
  by (simp add: Truncate_def)

lemma strip_plain:
  "escape \<notin> set x \<Longrightarrow> stripLoop False (x @ rest) = x @ stripLoop False rest"
  by (induction x) simp_all

lemma StripANSI_plain: "escape \<notin> set x \<Longrightarrow> StripANSI x = x"
  using strip_plain [of x "[]"] by (simp add: StripANSI_def)

lemma MeasureText_plain: "escape \<notin> set x \<Longrightarrow> MeasureText tbl x = StringWidth tbl x"
  by (simp add: MeasureText_def StripANSI_plain)

section \<open>Non-positive widths\<close>

text \<open>
  Claim C9. For every string, rune, alignment and width \<open>w \<le> 0\<close>: \<open>PadText\<close> returns the
  text unchanged, \<open>WrapText\<close> returns the one-element sequence holding the text, and
  \<open>RepeatChar\<close> returns the empty string; none of them panics.
\<close>

theorem C9_nonpositive_width:
  "w \<le> 0 \<Longrightarrow>
     PadText tbl s w align = Some s \<and> WrapText tbl s w = [s] \<and> RepeatChar tbl c w = Some []"
  by (simp add: PadText_def WrapText_def RepeatChar_def)

theorem C9_nonpositive_width_witness:
  "(0::int) \<le> 0 \<and> PadText sampleTable (str ''ab'') 0 AlignCenter = Some (str ''ab'')
     \<and> WrapText sampleTable (str ''ab'') 0 = [str ''ab'']
     \<and> RepeatChar sampleTable 45 0 = Some []"
  using C9_nonpositive_width [of 0 sampleTable "str ''ab''" AlignCenter 45] by simp

section \<open>Padding\<close>

lemma PadText_pads:
  assumes "StringWidth tbl s \<le> w"
  shows "PadText tbl s w align =
           (let padding = w - StringWidth tbl s
            in if align = AlignRight then Some (replicate (nat padding) space @ s)
               else if align = AlignCenter
               then Some (replicate (nat (padding div 2)) space @ s
                          @ replicate (nat (padding - padding div 2)) space)
               else Some (s @ replicate (nat padding) space))"
proof (cases "StringWidth tbl s = w")
  case True
  then show ?thesis
    by (simp add: PadText_def Truncate_fits AlignLeft_def AlignRight_def AlignCenter_def Let_def)
next
  case False
  with assms have lt: "StringWidth tbl s < w" by simp
  with StringWidth_nonneg [of tbl s] have pos: "0 < w" by linarith
  have half: "0 \<le> (w - StringWidth tbl s) div 2" using lt by simp
  have rest: "0 \<le> w - StringWidth tbl s - (w - StringWidth tbl s) div 2" using lt by linarith
  show ?thesis using lt pos half rest
    by (simp add: PadText_def Let_def Repeat_space sdiv_nonneg AlignLeft_def AlignRight_def AlignCenter_def)
qed

lemma PadText_exact_raw:
  assumes "StringWidth tbl s \<le> w"
  shows "(\<exists>r. PadText tbl s w align = Some r \<and> StringWidth tbl r = w)
       \<and> PadText tbl s w AlignLeft = Some (s @ replicate (nat (w - StringWidth tbl s)) space)
       \<and> PadText tbl s w AlignRight = Some (replicate (nat (w - StringWidth tbl s)) space @ s)
       \<and> (\<exists>l r. PadText tbl s w AlignCenter = Some (replicate l space @ s @ replicate r space)
                 \<and> int l + int r = w - StringWidth tbl s \<and> l \<le> r \<and> r \<le> l + 1)"
proof -
  let ?p = "w - StringWidth tbl s"
  have p: "0 \<le> ?p" using assms by simp
  have h: "0 \<le> ?p div 2" "?p div 2 \<le> ?p - ?p div 2" "?p - ?p div 2 \<le> ?p div 2 + 1"
    using p by linarith+
  have "\<exists>r. PadText tbl s w align = Some r \<and> StringWidth tbl r = w"
    using p h by (simp add: PadText_pads [OF assms] Let_def StringWidth_append StringWidth_spaces)
  moreover have "PadText tbl s w AlignLeft = Some (s @ replicate (nat ?p) space)"
    by (simp add: PadText_pads [OF assms] Let_def AlignLeft_def AlignRight_def AlignCenter_def)
  moreover have "PadText tbl s w AlignRight = Some (replicate (nat ?p) space @ s)"
    by (simp add: PadText_pads [OF assms] Let_def)
  moreover have "\<exists>l r. PadText tbl s w AlignCenter = Some (replicate l space @ s @ replicate r space)
                 \<and> int l + int r = ?p \<and> l \<le> r \<and> r \<le> l + 1"
  proof (intro exI conjI)
    show "PadText tbl s w AlignCenter
            = Some (replicate (nat (?p div 2)) space @ s @ replicate (nat (?p - ?p div 2)) space)"
      by (simp add: PadText_pads [OF assms] Let_def AlignRight_def AlignCenter_def)
    show "int (nat (?p div 2)) + int (nat (?p - ?p div 2)) = ?p" using h by linarith
    show "nat (?p div 2) \<le> nat (?p - ?p div 2)" using h by linarith
    show "nat (?p - ?p div 2) \<le> nat (?p div 2) + 1" using h by linarith
  qed
  ultimately show ?thesis by blast
qed

lemma sw_abc: "StringWidth sampleTable (str ''abc'') = 3"
  by (simp add: StringWidth_def RuneWidth_def str_def)

lemma PadText_clean:
  assumes "escape \<notin> set s" and "StringWidth tbl s \<le> w" and "PadText tbl s w align = Some r"
  shows "escape \<notin> set r"
  using assms(1,3) unfolding PadText_pads [OF assms(2)]
  by (auto simp: Let_def escape_def space_def split: if_splits)

text \<open>
  Claim C6, as amended. For every string \<open>s\<close> without an escape rune, every alignment and
  every width \<open>w\<close> at least the measured width of \<open>s\<close>, \<open>PadText\<close> returns a string of
  measured width exactly \<open>w\<close>; the missing columns are blanks, all trailing for Left, all
  leading for Right, and for Center split so that the leading part is the smaller half and
  an odd column goes to the right.
\<close>

theorem C6_pad_exact_width_amended:
  assumes "escape \<notin> set s" and "MeasureText tbl s \<le> w"
  shows "(\<exists>r. PadText tbl s w align = Some r \<and> MeasureText tbl r = w)
       \<and> PadText tbl s w AlignLeft = Some (s @ replicate (nat (w - MeasureText tbl s)) space)
       \<and> PadText tbl s w AlignRight = Some (replicate (nat (w - MeasureText tbl s)) space @ s)
       \<and> (\<exists>l r. PadText tbl s w AlignCenter = Some (replicate l space @ s @ replicate r space)
                 \<and> int l + int r = w - MeasureText tbl s \<and> l \<le> r \<and> r \<le> l + 1)"
proof -
  have m: "MeasureText tbl s = StringWidth tbl s" using assms(1) by (rule MeasureText_plain)
  have fit: "StringWidth tbl s \<le> w" using assms(2) m by simp
  from PadText_exact_raw [OF fit, of align]
  obtain r where r: "PadText tbl s w align = Some r" "StringWidth tbl r = w" by blast
  have "escape \<notin> set r" by (rule PadText_clean [OF assms(1) fit r(1)])
  then have "MeasureText tbl r = w" using r(2) by (simp add: MeasureText_plain)
  with r(1) have "\<exists>r. PadText tbl s w align = Some r \<and> MeasureText tbl r = w" by blast
  with PadText_exact_raw [OF fit, of align] show ?thesis unfolding m by blast
qed

theorem C6_pad_exact_width_amended_witness:
  "escape \<notin> set (str ''abc'') \<and> MeasureText sampleTable (str ''abc'') \<le> 6
   \<and> PadText sampleTable (str ''abc'') 6 AlignLeft = Some (str ''abc   '')
   \<and> PadText sampleTable (str ''abc'') 6 AlignRight = Some (str ''   abc'')
   \<and> (\<exists>r. PadText sampleTable (str ''abc'') 6 AlignCenter = Some r
            \<and> MeasureText sampleTable r = 6)"
proof -
  have e: "escape \<notin> set (str ''abc'')" by (simp add: str_def escape_def)
  have m: "MeasureText sampleTable (str ''abc'') = 3"
    by (simp add: MeasureText_plain [OF e] sw_abc)
  have w: "MeasureText sampleTable (str ''abc'') \<le> 6" by (simp add: m)
  have sp: "replicate (nat (6 - 3)) space = str ''   ''"
    by (simp add: str_def space_def eval_nat_numeral)
  have "(\<exists>r. PadText sampleTable (str ''abc'') 6 AlignCenter = Some r
            \<and> MeasureText sampleTable r = 6)
      \<and> PadText sampleTable (str ''abc'') 6 AlignLeft = Some (str ''abc'' @ str ''   '')
      \<and> PadText sampleTable (str ''abc'') 6 AlignRight = Some (str ''   '' @ str ''abc'')"
    using C6_pad_exact_width_amended [OF e w, of AlignCenter] unfolding m sp by blast
  with e w show ?thesis by (simp add: str_def)
qed

text \<open>
  Claim C6 as stated fails on a decorated string, since \<open>PadText\<close> measures the text with
  its escape sequences: the red \<open>"hi"\<close> measures 2, and padding it to 5 columns cuts it
  to the opening escape sequence and the marker, which measure 1. Padded to 20 columns it
  gets 11 blanks and measures 13.
\<close>

theorem C6_pad_exact_width_counterexample:
  "MeasureText sampleTable colouredHi = 2
   \<and> PadText sampleTable colouredHi 5 AlignLeft = Some [27, 91, 51, 49, 109, 8230]
   \<and> MeasureText sampleTable [27, 91, 51, 49, 109, 8230] = 1"
  by (simp add: colouredHi_def MeasureText_def StripANSI_def escape_def isLetter_def
      PadText_def Truncate_def StringWidth_def RuneWidth_def sampleTable_def str_def
      ellipsis_def)

lemma PadText_coloured_wide:
  "MeasureText sampleTable colouredHi = 2
   \<and> PadText sampleTable colouredHi 20 AlignLeft = Some (colouredHi @ replicate 11 space)
   \<and> MeasureText sampleTable (colouredHi @ replicate 11 space) = 13"
  by (simp add: colouredHi_def MeasureText_def StripANSI_def escape_def isLetter_def
      PadText_def Repeat_def AlignLeft_def StringWidth_def RuneWidth_def str_def space_def
      eval_nat_numeral)

section \<open>Truncation\<close>

lemma truncateLoop_take: "\<exists>n. truncateLoop tbl w k s = take n s"
proof (induction s arbitrary: k)
  case Nil
  show ?case by simp
next
  case (Cons r s)
  show ?case
  proof (cases "k + RuneWidth tbl r > w")
    case True
    then have "truncateLoop tbl w k (r # s) = take 0 (r # s)" by simp
    then show ?thesis by blast
  next
    case False
    from Cons.IH obtain n where "truncateLoop tbl w (k + RuneWidth tbl r) s = take n s" by blast
    with False have "truncateLoop tbl w k (r # s) = take (Suc n) (r # s)" by simp
    then show ?thesis by blast
  qed
qed

lemma truncateLoop_width: "k \<le> w \<Longrightarrow> k + StringWidth tbl (truncateLoop tbl w k s) \<le> w"
proof (induction s arbitrary: k)
  case Nil
  then show ?case by (simp add: StringWidth_Nil)
next
  case (Cons r s)
  show ?case
  proof (cases "k + RuneWidth tbl r > w")
    case True
    with Cons.prems show ?thesis by (simp add: StringWidth_Nil)
  next
    case False
    then have "k + RuneWidth tbl r + StringWidth tbl (truncateLoop tbl w (k + RuneWidth tbl r) s) \<le> w"
      by (intro Cons.IH) simp
    with False show ?thesis by (simp add: StringWidth_Cons)
  qed
qed

lemma Truncate_width:
  assumes "StringWidth tbl tail \<le> w"
  shows "StringWidth tbl (Truncate tbl s w tail) \<le> w"
proof (cases "StringWidth tbl s \<le> w")
  case True
  then show ?thesis by (simp add: Truncate_def)
next
  case False
  have "0 + StringWidth tbl (truncateLoop tbl (w - StringWidth tbl tail) 0 s) \<le> w - StringWidth tbl tail"
    using assms by (intro truncateLoop_width) simp
  with False show ?thesis by (simp add: Truncate_def StringWidth_append)
qed

lemma Truncate_cut:
  "Truncate tbl s w tail \<noteq> s \<Longrightarrow> \<exists>n. Truncate tbl s w tail = take n s @ tail"
  using truncateLoop_take [of tbl "w - StringWidth tbl tail" 0 s]
  by (auto simp: Truncate_def split: if_splits)

text \<open>
  Claim C7, as amended. For every string \<open>s\<close> and every width \<open>w\<close> that is at least the
  measured width of the marker, \<open>TruncateText\<close> yields a result of measured width at most
  \<open>w\<close>. For every \<open>s\<close> and every positive \<open>w\<close>, a result that differs from \<open>s\<close> is a prefix of
  \<open>s\<close> followed by exactly one ellipsis marker, also when \<open>w\<close> is smaller than the marker.
  For \<open>w \<le> 0\<close> the result is the empty string.
\<close>

theorem C7_truncate_amended:
  "(StringWidth tbl [ellipsis] \<le> w \<longrightarrow> StringWidth tbl (TruncateText tbl s w) \<le> w)
   \<and> (0 < w \<and> TruncateText tbl s w \<noteq> s \<longrightarrow> (\<exists>n. TruncateText tbl s w = take n s @ [ellipsis]))
   \<and> (w \<le> 0 \<longrightarrow> TruncateText tbl s w = [])"
proof (intro conjI impI)
  assume "StringWidth tbl [ellipsis] \<le> w"
  then show "StringWidth tbl (TruncateText tbl s w) \<le> w"
    using StringWidth_nonneg [of tbl "[ellipsis]"]
    by (simp add: TruncateText_def Truncate_width StringWidth_Nil)
next
  assume "0 < w \<and> TruncateText tbl s w \<noteq> s"
  then show "\<exists>n. TruncateText tbl s w = take n s @ [ellipsis]"
    using Truncate_cut [of tbl s w "[ellipsis]"] by (auto simp: TruncateText_def)
next
  assume "w \<le> 0"
  then show "TruncateText tbl s w = []" by (simp add: TruncateText_def)
qed

lemma TruncateText_hello:
  "TruncateText sampleTable (str ''hello'') 3 = [104, 101, 8230]"
  by (simp add: TruncateText_def Truncate_def StringWidth_def RuneWidth_def str_def
      sampleTable_def ellipsis_def)

theorem C7_truncate_amended_witness:
  "StringWidth sampleTable [ellipsis] \<le> 3
   \<and> StringWidth sampleTable (TruncateText sampleTable (str ''hello'') 3) \<le> 3
   \<and> TruncateText sampleTable (str ''hello'') 3 \<noteq> str ''hello''
   \<and> (\<exists>n. TruncateText sampleTable (str ''hello'') 3 = take n (str ''hello'') @ [ellipsis])
   \<and> TruncateText sampleTable (str ''hello'') 0 = []"
proof -
  have w: "StringWidth sampleTable [ellipsis] \<le> 3"
    by (simp add: StringWidth_def RuneWidth_def sampleTable_def ellipsis_def)
  have ne: "TruncateText sampleTable (str ''hello'') 3 \<noteq> str ''hello''"
    unfolding TruncateText_hello by (simp add: str_def)
  show ?thesis
    using w ne C7_truncate_amended [of sampleTable 3 "str ''hello''"]
      C7_truncate_amended [of sampleTable 0 "str ''hello''"]
    by simp
qed

text \<open>
  Claim C7 as stated fails at a budget of zero: the text \<open>"a"\<close> is cut to the empty string,
  which differs from the text and carries no marker.
\<close>

theorem C7_truncate_counterexample:
  "TruncateText sampleTable (str ''a'') 0 \<noteq> str ''a''
   \<and> \<not> hasSuffix (TruncateText sampleTable (str ''a'') 0) [ellipsis]"
  by (simp add: TruncateText_def hasSuffix_def str_def)

section \<open>Column widths of a table\<close>

lemma updateLoop_length: "length (updateLoop tbl k row cws) = length cws"
  by (induction row arbitrary: k cws) (simp_all add: Let_def)

lemma updateLoop_nth:
  "i < length cws \<Longrightarrow>
     updateLoop tbl k row cws ! i =
       (if k \<le> i \<and> i < k + length row then max (cws ! i) (StringWidth tbl (row ! (i - k)))
        else cws ! i)"
proof (induction row arbitrary: k cws)
  case Nil
  then show ?case by simp
next
  case (Cons cell cells)
  let ?cws = "if k < length cws
        then (let cellWidth = StringWidth tbl cell
              in if cellWidth > cws ! k then cws[k := cellWidth] else cws)
        else cws"
  have len: "length ?cws = length cws" by (simp add: Let_def)
  have step: "updateLoop tbl k (cell # cells) cws ! i = updateLoop tbl (Suc k) cells ?cws ! i"
    by simp
  have ih: "updateLoop tbl (Suc k) cells ?cws ! i =
       (if Suc k \<le> i \<and> i < Suc k + length cells
        then max (?cws ! i) (StringWidth tbl (cells ! (i - Suc k))) else ?cws ! i)"
    using Cons.IH [of ?cws "Suc k"] Cons.prems len by simp
  show ?case
  proof (cases "i = k")
    case True
    with Cons.prems show ?thesis unfolding step ih by (simp add: Let_def max_def)
  next
    case False
    then have same: "?cws ! i = cws ! i" by (simp add: Let_def)
    show ?thesis
    proof (cases "Suc k \<le> i")
      case True
      then have "(cell # cells) ! (i - k) = cells ! (i - Suc k)"
        by (simp add: nth_Cons')
      with True same show ?thesis unfolding step ih by simp
    next
      case False2: False
      with False same show ?thesis unfolding step ih by simp
    qed
  qed
qed

text \<open>
  Claim C8. For every table and every row added with \<open>AddRow\<close>, the number of columns stays
  the same and no column's width decreases.
\<close>

theorem C8_column_width_monotone:
  "i < length (tab_columnWidths t) \<Longrightarrow>
     length (tab_columnWidths (AddRow tbl t row)) = length (tab_columnWidths t)
     \<and> tab_columnWidths t ! i \<le> tab_columnWidths (AddRow tbl t row) ! i"
  by (simp add: AddRow_def updateColumnWidthsForRow_def updateLoop_length updateLoop_nth)

lemma staffTable_widths: "tab_columnWidths staffTable = [4, 4]"
  by (simp add: staffTable_def Headers_def NewTable_def Let_def StringWidth_def RuneWidth_def str_def)

lemma staffTable_row:
  "tab_columnWidths (AddRow sampleTable staffTable [str ''Alice'', str ''Developer'']) = [5, 9]"
  by (simp add: AddRow_def updateColumnWidthsForRow_def staffTable_widths
      StringWidth_def RuneWidth_def str_def)

theorem C8_column_width_monotone_witness:
  "(1::nat) < length (tab_columnWidths staffTable)
   \<and> tab_columnWidths staffTable ! 1 = 4
   \<and> tab_columnWidths (AddRow sampleTable staffTable [str ''Alice'', str ''Developer'']) ! 1 = 9"
  using C8_column_width_monotone [of 1 staffTable sampleTable "[str ''Alice'', str ''Developer'']"]
  by (simp add: staffTable_widths staffTable_row)

lemma AddRow_widths_raw:
  "tab_columnWidths (ColumnWidths t widths) = widths
   \<and> length (tab_columnWidths (AddRow tbl (ColumnWidths t widths) row)) = length widths
   \<and> (\<forall>i < length widths.
        tab_columnWidths (AddRow tbl (ColumnWidths t widths) row) ! i =
          (if i < length row then max (widths ! i) (StringWidth tbl (row ! i)) else widths ! i))"
  by (simp add: AddRow_def ColumnWidths_def updateColumnWidthsForRow_def updateLoop_length
      updateLoop_nth)

text \<open>
  Claim C3 as stated fails: with the explicit width 3 supplied before any row, adding the
  row \<open>"hello"\<close> changes the width to 5.
\<close>

theorem C3_explicit_widths_counterexample:
  "tab_columnWidths (AddRow sampleTable (ColumnWidths staffTable [3]) [str ''hello'']) = [5]"
  by (simp add: AddRow_def ColumnWidths_def updateColumnWidthsForRow_def
      StringWidth_def RuneWidth_def str_def)

section \<open>Hidden components\<close>

text \<open>
  Claim C10. For every configuration, width table and theme, \<open>Box.Render\<close> returns the
  empty string when the box is hidden, and \<open>Table.Render\<close> returns the empty string when
  the table is hidden or has no headers.
\<close>

theorem C10_hidden_renders_empty:
  "(IsHidden (box_component b) \<longrightarrow> Box_Render tbl b theme = Some [])
   \<and> (IsHidden (tab_component t) \<or> length (tab_headers t) = 0
        \<longrightarrow> Table_Render tbl t theme = Some [])"
  by (simp add: Box_Render_def Table_Render_def)

theorem C10_hidden_renders_empty_witness:
  "IsHidden (box_component (NewBox\<lparr>box_component := Hide NewComponent\<rparr>))
   \<and> Box_Render sampleTable (NewBox\<lparr>box_component := Hide NewComponent\<rparr>) DefaultTheme = Some []
   \<and> length (tab_headers NewTable) = 0
   \<and> Table_Render sampleTable NewTable DefaultTheme = Some []"
proof -
  have h: "IsHidden (box_component (NewBox\<lparr>box_component := Hide NewComponent\<rparr>))"
    by (simp add: IsHidden_def Hide_def NewBox_def)
  have e: "length (tab_headers NewTable) = 0" by (simp add: NewTable_def)
  show ?thesis
    using h e C10_hidden_renders_empty
      [of "NewBox\<lparr>box_component := Hide NewComponent\<rparr>" sampleTable DefaultTheme NewTable]
    by simp
qed

section \<open>Wrapping\<close>

lemma fieldsLoop_nonempty: "[] \<notin> set (fieldsLoop cur s)"
  by (induction s arbitrary: cur) simp_all

lemma Join_head: "\<exists>t. Join (b # rest) sep = b @ t"
  by (cases rest) simp_all

lemma Join_merge: "Join ((a @ c # b) # rest) [c] = Join (a # b # rest) [c]"
  by (cases rest) simp_all

lemma wrapLoop_fits:
  "currentLine \<noteq> [] \<Longrightarrow> StringWidth tbl (Join (currentLine # ws) [space]) \<le> w \<Longrightarrow>
     wrapLoop tbl w lines currentLine ws = (lines, Join (currentLine # ws) [space])"
proof (induction ws arbitrary: currentLine)
  case Nil
  show ?case by simp
next
  case (Cons word ws)
  let ?test = "currentLine @ space # word"
  obtain t where t: "Join (word # ws) [space] = word @ t" using Join_head by blast
  have "StringWidth tbl ?test \<le> StringWidth tbl (Join (currentLine # word # ws) [space])"
    using StringWidth_nonneg [of tbl t] by (simp add: t StringWidth_append StringWidth_Cons)
  with Cons.prems have fit: "StringWidth tbl ?test \<le> w" by simp
  have "wrapLoop tbl w lines ?test ws = (lines, Join (?test # ws) [space])"
    using Cons.prems by (intro Cons.IH) (simp_all add: Join_merge)
  with fit Cons.prems(1) show ?case by (simp add: Join_merge)
qed

lemma WrapText_short_raw:
  assumes "StringWidth tbl s \<le> w" and "s = Join (Fields s) [space]"
  shows "WrapText tbl s w = [s]"
proof (cases "w \<le> 0")
  case True
  then show ?thesis by (simp add: WrapText_def)
next
  case False
  show ?thesis
  proof (cases "Fields s")
    case Nil
    with assms(2) have "s = []" by simp
    with False Nil show ?thesis by (simp add: WrapText_def)
  next
    case (Cons x xs)
    have "x \<in> set (Fields s)" using Cons by simp
    then have x: "x \<noteq> []" using fieldsLoop_nonempty [of "[]" s] by (auto simp: Fields_def)
    have s: "s = Join (x # xs) [space]" using assms(2) Cons by simp
    obtain t where t: "Join (x # xs) [space] = x @ t" using Join_head by blast
    have sne: "s \<noteq> []" using s t x by simp
    have "StringWidth tbl x \<le> StringWidth tbl s"
      using StringWidth_nonneg [of tbl t] s t by (simp add: StringWidth_append)
    with assms(1) have fit: "StringWidth tbl x \<le> w" by simp
    have "wrapLoop tbl w [] x xs = ([], Join (x # xs) [space])"
      using x assms(1) s by (intro wrapLoop_fits) simp_all
    with fit have "wrapLoop tbl w [] [] (x # xs) = ([], s)" using s by simp
    with False Cons sne show ?thesis by (simp add: WrapText_def)
  qed
qed

lemma Fields_ab: "Fields (str ''ab cd'') = [str ''ab'', str ''cd'']"
  by (simp add: Fields_def str_def isSpace_def)

text \<open>
  Claim C5, as amended. For every string \<open>s\<close> without an escape rune and every width \<open>w\<close>
  with the measured width of \<open>s\<close> at most \<open>w\<close>, where \<open>s\<close> is its own white-space-separated
  words joined by single spaces (no leading, trailing or repeated white space, no white
  space other than the space), \<open>WrapText\<close> returns the one-element sequence holding \<open>s\<close>
  unchanged.
\<close>

theorem C5_wrap_short_amended:
  assumes "escape \<notin> set s" and "MeasureText tbl s \<le> w" and "s = Join (Fields s) [space]"
  shows "WrapText tbl s w = [s]"
proof -
  have "StringWidth tbl s \<le> w" using assms(1,2) by (simp add: MeasureText_plain)
  then show ?thesis using assms(3) by (rule WrapText_short_raw)
qed

theorem C5_wrap_short_amended_witness:
  "escape \<notin> set (str ''ab cd'') \<and> MeasureText sampleTable (str ''ab cd'') \<le> 5
   \<and> str ''ab cd'' = Join (Fields (str ''ab cd'')) [space]
   \<and> WrapText sampleTable (str ''ab cd'') 5 = [str ''ab cd'']"
proof -
  have e: "escape \<notin> set (str ''ab cd'')" by (simp add: str_def escape_def)
  have w: "MeasureText sampleTable (str ''ab cd'') \<le> 5"
    by (simp add: MeasureText_plain [OF e]) (simp add: StringWidth_def RuneWidth_def str_def)
  have n: "str ''ab cd'' = Join (Fields (str ''ab cd'')) [space]"
    unfolding Fields_ab by (simp add: str_def space_def)
  show ?thesis using e w n C5_wrap_short_amended [OF e w n] by simp
qed

text \<open>
  Claim C5 as stated fails on a text with two spaces between its words: the text has no
  escape rune and fits the width, and the line returned has one space, so it is not the
  text.
\<close>

theorem C5_wrap_short_counterexample:
  "escape \<notin> set (str ''a  b'')
   \<and> MeasureText sampleTable (str ''a  b'') \<le> 10
   \<and> StringWidth sampleTable (str ''a  b'') \<le> 10
   \<and> WrapText sampleTable (str ''a  b'') 10 \<noteq> [str ''a  b'']"
  by (simp add: WrapText_def Fields_def isSpace_def MeasureText_def StripANSI_def escape_def
      StringWidth_def RuneWidth_def str_def space_def)

text \<open>
  It fails on a decorated word as well, since \<open>WrapText\<close> measures the words with their
  escape sequences: the red \<open>"hello"\<close> measures 5, and wrapping it to 5 columns cuts it to
  the opening escape sequence and the marker.
\<close>

lemma WrapText_coloured:
  "MeasureText sampleTable colouredHello = 5
   \<and> colouredHello = Join (Fields colouredHello) [space]
   \<and> WrapText sampleTable colouredHello 5 = [[27, 91, 51, 49, 109, 8230]]"
  by (simp add: colouredHello_def MeasureText_def StripANSI_def escape_def isLetter_def
      WrapText_def Fields_def isSpace_def Truncate_def StringWidth_def RuneWidth_def
      sampleTable_def str_def ellipsis_def)

text \<open>
  Claim C2 against the code. A word wider than the budget that follows a word on the current
  line becomes the new current line as it is: wrapping \<open>"a bbbbbbbbbb"\<close> to 3 columns gives
  the lines \<open>"a"\<close> and \<open>"bbbbbbbbbb"\<close>, the second 10 columns wide and without a marker.
\<close>

theorem C2_wrap_overwide_line:
  "WrapText sampleTable (str ''a bbbbbbbbbb'') 3 = [str ''a'', str ''bbbbbbbbbb'']
   \<and> StringWidth sampleTable (str ''bbbbbbbbbb'') = 10"
  by (simp add: WrapText_def Fields_def isSpace_def StringWidth_def RuneWidth_def str_def
      space_def)

section \<open>The height of a box\<close>

text \<open>
  Claim C4 against the code. For the box of width 8 and padding 1 with the content
  \<open>"aa bb cc"\<close> and no explicit height, the content wraps to three lines at the content
  width 4, so that the claim gives the height \<open>3 + 2 * 1 + 2 = 7\<close>; the code resolves the
  height 6, from the quotient of the line's width by the content width.
\<close>

theorem C4_height_estimate:
  "resolveWidth sampleTable wrapBox = 8
   \<and> resolveHeight sampleTable wrapBox 8 = 6
   \<and> wrapContent sampleTable wrapBox (8 - 2 * box_padding wrapBox - 2)
       = [str ''aa'', str ''bb'', str ''cc'']"
  by (simp add: resolveWidth_def resolveHeight_def calculateHeight_def wrapContent_def
      wrapBox_def NewBox_def NewComponent_def GetWidth_def GetHeight_def SplitLines_def
      newline_def Fields_def isSpace_def StringWidth_def RuneWidth_def str_def space_def
      signed_divide_int_def)

section \<open>The width of a rendered box\<close>

subsection \<open>Escape sequences\<close>

lemma itoa_digits: "r \<in> set (itoa n) \<Longrightarrow> 48 \<le> r \<and> r \<le> 57"
proof (induction n arbitrary: r rule: itoa.induct)
  case (1 n)
  show ?case
  proof (cases "n < 10")
    case True
    then have "itoa n = [48 + n]" by (subst itoa.simps) simp
    with 1(2) True show ?thesis by simp
  next
    case False
    then have eq: "itoa n = itoa (n div 10) @ [48 + n mod 10]" by (subst itoa.simps) simp
    have m: "n mod 10 < 10" by simp
    from 1(2) have "r \<in> set (itoa (n div 10)) \<or> r = 48 + n mod 10"
      unfolding eq by auto
    then show ?thesis
    proof
      assume "r \<in> set (itoa (n div 10))"
      with 1(1) [OF False] show ?thesis by blast
    next
      assume "r = 48 + n mod 10"
      with m show ?thesis by linarith
    qed
  qed
qed

lemma Join_set: "r \<in> set (Join xs sep) \<Longrightarrow> r \<in> set sep \<or> (\<exists>x \<in> set xs. r \<in> set x)"
  by (induction xs sep rule: Join.induct) auto

lemma sequence_chars: "r \<in> set (sequence ps) \<Longrightarrow> 48 \<le> r \<and> r \<le> 59"
proof -
  assume "r \<in> set (sequence ps)"
  then have "r \<in> set [59] \<or> (\<exists>x \<in> set (map itoa ps). r \<in> set x)"
    unfolding sequence_def by (rule Join_set)
  then show ?thesis
  proof
    assume "r \<in> set [59]"
    then show ?thesis by simp
  next
    assume "\<exists>x \<in> set (map itoa ps). r \<in> set x"
    then obtain p where "r \<in> set (itoa p)" by auto
    from itoa_digits [OF this] show ?thesis by linarith
  qed
qed

lemma sequence_not_letter: "r \<in> set (sequence ps) \<Longrightarrow> \<not> isLetter r"
  using sequence_chars [of r ps] by (simp add: isLetter_def)

lemma stripLoop_params:
  "\<forall>r \<in> set ns. \<not> isLetter r \<Longrightarrow> stripLoop True (ns @ 109 # rest) = stripLoop False rest"
  by (induction ns) (auto simp: isLetter_def escape_def)

lemma strip_open:
  "stripLoop False (escape # 91 # sequence ps @ 109 # rest) = stripLoop False rest"
proof -
  have "\<not> isLetter 91" by (simp add: isLetter_def)
  then have "\<forall>r \<in> set (91 # sequence ps). \<not> isLetter r"
    using sequence_not_letter by simp
  from stripLoop_params [OF this, of rest] show ?thesis by simp
qed

lemma strip_Sprint:
  assumes "escape \<notin> set x"
  shows "stripLoop False (Sprint c x @ rest) = x @ stripLoop False rest"
proof (cases "noColor c")
  case True
  with assms show ?thesis by (simp add: Sprint_def strip_plain)
next
  case False
  then have "stripLoop False (Sprint c x @ rest)
      = stripLoop False (x @ escape # 91 # sequence (resetParams c) @ 109 # rest)"
    by (simp add: Sprint_def strip_open del: stripLoop.simps)
  also have "\<dots> = x @ stripLoop False rest"
    using assms by (simp add: strip_plain strip_open del: stripLoop.simps)
  finally show ?thesis .
qed

lemma strip_repeat_Sprint:
  "escape \<notin> set x \<Longrightarrow>
     stripLoop False (concat (replicate k (Sprint c x)) @ rest)
       = concat (replicate k x) @ stripLoop False rest"
  by (induction k) (simp_all add: strip_Sprint)

lemma Sprint_no_newline:
  assumes "newline \<notin> set x"
  shows "newline \<notin> set (Sprint c x)"
proof
  assume "newline \<in> set (Sprint c x)"
  then have "newline \<in> set (sequence (colorParams c)) \<or> newline \<in> set (sequence (resetParams c))"
    using assms by (auto simp: Sprint_def newline_def escape_def split: if_splits)
  then show False using sequence_chars [of newline] by (auto simp: newline_def)
qed

subsection \<open>Lines of a joined text\<close>

lemma splitLoop_plain: "newline \<notin> set x \<Longrightarrow> splitLoop cur x = [cur @ x]"
  by (induction x arbitrary: cur) simp_all

lemma splitLoop_line:
  "newline \<notin> set x \<Longrightarrow> splitLoop cur (x @ newline # rest) = (cur @ x) # splitLoop [] rest"
  by (induction x arbitrary: cur) simp_all

lemma splitLoop_Join:
  "\<forall>r \<in> set (x # rows). newline \<notin> set r \<Longrightarrow>
     splitLoop [] (Join (x # rows) [newline]) = x # rows"
proof (induction rows arbitrary: x)
  case Nil
  then show ?case by (simp add: splitLoop_plain)
next
  case (Cons y ys)
  have x: "newline \<notin> set x" using Cons.prems by simp
  have "splitLoop [] (Join (y # ys) [newline]) = y # ys"
    using Cons.prems by (intro Cons.IH) simp
  with splitLoop_line [OF x, of "[]" "Join (y # ys) [newline]"] show ?case by simp
qed

lemma SplitLines_Join:
  "rows \<noteq> [] \<Longrightarrow> \<forall>r \<in> set rows. newline \<notin> set r \<Longrightarrow>
     SplitLines (Join rows [newline]) = rows"
  by (cases rows) (simp_all add: SplitLines_def splitLoop_Join del: Join.simps)

subsection \<open>Steps that do not panic\<close>

lemma sequenceOpt_replicate: "sequenceOpt (replicate n (Some x)) = Some (replicate n x)"
  by (induction n) simp_all

lemma StringWidth_concat_replicate:
  "StringWidth tbl (concat (replicate k x)) = int k * StringWidth tbl x"
  by (induction k) (simp_all add: StringWidth_Nil StringWidth_append algebra_simps)

subsection \<open>The runes of the wrapped lines\<close>

lemma splitLoop_chars:
  "l \<in> set (splitLoop cur s) \<Longrightarrow> r \<in> set l \<Longrightarrow> r \<in> set cur \<or> (r \<in> set s \<and> r \<noteq> newline)"
proof (induction s arbitrary: cur)
  case Nil
  then show ?case by simp
next
  case (Cons c s)
  show ?case
  proof (cases "c = newline")
    case True
    with Cons.prems have "l = cur \<or> l \<in> set (splitLoop [] s)" by simp
    then show ?thesis
    proof
      assume "l = cur"
      with Cons.prems show ?thesis by simp
    next
      assume "l \<in> set (splitLoop [] s)"
      from Cons.IH [OF this Cons.prems(2)] show ?thesis by simp
    qed
  next
    case False
    with Cons.prems have "l \<in> set (splitLoop (cur @ [c]) s)" by simp
    from Cons.IH [OF this Cons.prems(2)] False show ?thesis by auto
  qed
qed

lemma fieldsLoop_chars:
  "w \<in> set (fieldsLoop cur s) \<Longrightarrow> set w \<subseteq> set cur \<union> set s"
proof (induction s arbitrary: cur)
  case Nil
  then show ?case by (simp split: if_splits)
next
  case (Cons c s)
  show ?case
  proof (cases "isSpace c")
    case True
    with Cons.prems have "w = cur \<or> w \<in> set (fieldsLoop [] s)" by (simp split: if_splits)
    then show ?thesis
    proof
      assume "w = cur"
      then show ?thesis by auto
    next
      assume "w \<in> set (fieldsLoop [] s)"
      from Cons.IH [OF this] show ?thesis by auto
    qed
  next
    case False
    with Cons.prems have "w \<in> set (fieldsLoop (cur @ [c]) s)" by simp
    from Cons.IH [OF this] show ?thesis by auto
  qed
qed

lemma Truncate_chars: "set (Truncate tbl s w tail) \<subseteq> set s \<union> set tail"
proof (cases "Truncate tbl s w tail = s")
  case True
  then show ?thesis by auto
next
  case False
  from Truncate_cut [OF this] obtain n where "Truncate tbl s w tail = take n s @ tail" by blast
  then show ?thesis using set_take_subset [of n s] by auto
qed

lemma wrapLoop_chars:
  assumes "space \<in> A" and "ellipsis \<in> A"
  shows "\<forall>l \<in> set lines. set l \<subseteq> A \<Longrightarrow> set cur \<subseteq> A \<Longrightarrow> \<forall>w \<in> set ws. set w \<subseteq> A \<Longrightarrow>
         (\<forall>l \<in> set (fst (wrapLoop tbl width lines cur ws)). set l \<subseteq> A)
         \<and> set (snd (wrapLoop tbl width lines cur ws)) \<subseteq> A"
proof (induction ws arbitrary: lines cur)
  case Nil
  then show ?case by simp
next
  case (Cons word ws)
  have word: "set word \<subseteq> A" and rest: "\<forall>w \<in> set ws. set w \<subseteq> A" using Cons.prems(3) by simp_all
  let ?test = "(if cur \<noteq> [] then cur @ [space] else cur) @ word"
  have test: "set ?test \<subseteq> A" using Cons.prems(2) word assms(1) by simp
  have cut: "set (Truncate tbl word width [ellipsis]) \<subseteq> A"
    using Truncate_chars [of tbl word width "[ellipsis]"] word assms(2) by auto
  consider (fit) "StringWidth tbl ?test \<le> width"
    | (break) "\<not> StringWidth tbl ?test \<le> width" "cur \<noteq> []"
    | (long) "\<not> StringWidth tbl ?test \<le> width" "cur = []" by blast
  then show ?case
  proof cases
    case fit
    then have eq: "wrapLoop tbl width lines cur (word # ws) = wrapLoop tbl width lines ?test ws"
      by (simp add: Let_def)
    show ?thesis unfolding eq by (rule Cons.IH [OF Cons.prems(1) test rest])
  next
    case break
    then have eq: "wrapLoop tbl width lines cur (word # ws)
        = wrapLoop tbl width (lines @ [cur]) word ws"
      by (simp add: Let_def)
    have pre: "\<forall>l \<in> set (lines @ [cur]). set l \<subseteq> A" using Cons.prems(1,2) by simp
    show ?thesis unfolding eq by (rule Cons.IH [OF pre word rest])
  next
    case long
    then have eq: "wrapLoop tbl width lines cur (word # ws)
        = wrapLoop tbl width (lines @ [Truncate tbl word width [ellipsis]]) [] ws"
      by (simp add: Let_def)
    have pre: "\<forall>l \<in> set (lines @ [Truncate tbl word width [ellipsis]]). set l \<subseteq> A"
      using Cons.prems(1) cut by simp
    have emp: "set ([]::gostring) \<subseteq> A" by simp
    show ?thesis unfolding eq by (rule Cons.IH [OF pre emp rest])
  qed
qed

lemma wrapLines_chars:
  assumes "space \<in> A" and "ellipsis \<in> A"
  shows "\<forall>l \<in> set result. set l \<subseteq> A \<Longrightarrow> \<forall>line \<in> set ls. set line \<subseteq> A \<Longrightarrow>
         \<forall>l \<in> set (wrapLines tbl width result ls). set l \<subseteq> A"
proof (induction ls arbitrary: result)
  case Nil
  then show ?case by simp
next
  case (Cons line ls)
  have line: "set line \<subseteq> A" and rest: "\<forall>line \<in> set ls. set line \<subseteq> A"
    using Cons.prems(2) by simp_all
  have blank: "\<forall>l \<in> set (result @ [[]]). set l \<subseteq> A" using Cons.prems(1) by simp
  show ?case
  proof (cases "line = [] \<or> Fields line = []")
    case True
    then have eq: "wrapLines tbl width result (line # ls) = wrapLines tbl width (result @ [[]]) ls"
      by auto
    show ?thesis unfolding eq by (rule Cons.IH [OF blank rest])
  next
    case False
    have words: "\<forall>w \<in> set (Fields line). set w \<subseteq> A"
      using fieldsLoop_chars [of _ "[]" line] line by (fastforce simp: Fields_def)
    obtain res cur where wl: "wrapLoop tbl width result [] (Fields line) = (res, cur)"
      by (cases "wrapLoop tbl width result [] (Fields line)")
    from wrapLoop_chars [OF assms Cons.prems(1) _ words, of "[]" tbl width] wl
    have res: "\<forall>l \<in> set res. set l \<subseteq> A" and cur: "set cur \<subseteq> A" by simp_all
    let ?next = "if cur \<noteq> [] then res @ [cur] else res"
    have nxt: "\<forall>l \<in> set ?next. set l \<subseteq> A" using res cur by simp
    have eq: "wrapLines tbl width result (line # ls) = wrapLines tbl width ?next ls"
      using False wl by (simp add: Let_def)
    show ?thesis unfolding eq by (rule Cons.IH [OF nxt rest])
  qed
qed

lemma wrapContent_chars:
  assumes "0 < width" and "l \<in> set (wrapContent tbl b width)"
  shows "set l \<subseteq> (set (box_content b) - {newline}) \<union> {space, ellipsis}"
proof -
  let ?A = "(set (box_content b) - {newline}) \<union> {space, ellipsis}"
  have lines: "\<forall>line \<in> set (SplitLines (box_content b)). set line \<subseteq> ?A"
    using splitLoop_chars [of _ "[]" "box_content b"] by (fastforce simp: SplitLines_def)
  have "\<forall>l \<in> set (wrapLines tbl width [] (SplitLines (box_content b))). set l \<subseteq> ?A"
    by (rule wrapLines_chars [OF _ _ _ lines]) simp_all
  with assms show ?thesis by (simp add: wrapContent_def)
qed

lemma wrapContent_clean:
  assumes "0 < width" and "l \<in> set (wrapContent tbl b width)"
    and "escape \<notin> set (box_content b)"
  shows "escape \<notin> set l \<and> newline \<notin> set l"
  using wrapContent_chars [OF assms(1,2)] assms(3)
  by (auto simp: escape_def newline_def space_def ellipsis_def)

subsection \<open>Measuring a decorated row\<close>

lemma strip_Sprint_end: "escape \<notin> set x \<Longrightarrow> stripLoop False (Sprint c x) = x"
  using strip_Sprint [of x c "[]"] by simp

lemma strip_spaces:
  "stripLoop False (replicate n space @ rest) = replicate n space @ stripLoop False rest"
  by (rule strip_plain) (simp add: escape_def space_def)

lemma concat_replicate_no_newline:
  "newline \<notin> set y \<Longrightarrow> newline \<notin> set (concat (replicate n y))"
  by (induction n) simp_all

lemma narrowGlyphs_widths:
  assumes "narrowGlyphs tbl"
  shows "StringWidth tbl BoxTopLeft = 1" and "StringWidth tbl BoxTopRight = 1"
    and "StringWidth tbl BoxBottomLeft = 1" and "StringWidth tbl BoxBottomRight = 1"
    and "StringWidth tbl BoxHorizontal = 1" and "StringWidth tbl BoxVertical = 1"
  using assms
  by (simp_all add: narrowGlyphs_def StringWidth_def RuneWidth_def BoxTopLeft_def BoxTopRight_def
      BoxBottomLeft_def BoxBottomRight_def BoxHorizontal_def BoxVertical_def)

lemma glyphs_clean:
  "escape \<notin> set BoxTopLeft" "escape \<notin> set BoxTopRight" "escape \<notin> set BoxBottomLeft"
  "escape \<notin> set BoxBottomRight" "escape \<notin> set BoxHorizontal" "escape \<notin> set BoxVertical"
  "newline \<notin> set BoxTopLeft" "newline \<notin> set BoxTopRight" "newline \<notin> set BoxBottomLeft"
  "newline \<notin> set BoxBottomRight" "newline \<notin> set BoxHorizontal" "newline \<notin> set BoxVertical"
  by (simp_all add: escape_def newline_def BoxTopLeft_def BoxTopRight_def
      BoxBottomLeft_def BoxBottomRight_def BoxHorizontal_def BoxVertical_def)

lemma brackets_clean:
  "escape \<notin> set (str ''[ '')" "escape \<notin> set (str '' ]'')"
  "newline \<notin> set (str ''[ '')" "newline \<notin> set (str '' ]'')"
  "StringWidth tbl (str ''[ '') = 2" "StringWidth tbl (str '' ]'') = 2"
  by (simp_all add: escape_def newline_def str_def StringWidth_def RuneWidth_def)

lemma Repeat_nonneg: "0 \<le> n \<Longrightarrow> Repeat s n = Some (concat (replicate (nat n) s))"
  by (simp add: Repeat_def)

lemma rule_row:
  assumes "escape \<notin> set l" "escape \<notin> set h" "escape \<notin> set r"
    and "newline \<notin> set l" "newline \<notin> set h" "newline \<notin> set r"
  shows "MeasureText tbl (Sprint c l @ concat (replicate n (Sprint c h)) @ Sprint c r)
           = StringWidth tbl l + int n * StringWidth tbl h + StringWidth tbl r"
    and "newline \<notin> set (Sprint c l @ concat (replicate n (Sprint c h)) @ Sprint c r)"
proof -
  have "StripANSI (Sprint c l @ concat (replicate n (Sprint c h)) @ Sprint c r)
          = l @ concat (replicate n h) @ r"
    using assms(1-3)
    by (simp add: StripANSI_def strip_Sprint strip_repeat_Sprint strip_Sprint_end)
  then show "MeasureText tbl (Sprint c l @ concat (replicate n (Sprint c h)) @ Sprint c r)
           = StringWidth tbl l + int n * StringWidth tbl h + StringWidth tbl r"
    by (simp add: MeasureText_def StringWidth_append StringWidth_concat_replicate)
  show "newline \<notin> set (Sprint c l @ concat (replicate n (Sprint c h)) @ Sprint c r)"
    using assms(4-6) concat_replicate_no_newline [of "Sprint c h" n]
    by (simp add: Sprint_no_newline)
qed

lemma bottomBorder_row:
  assumes "narrowGlyphs tbl" and "2 \<le> W"
  shows "\<exists>row. bottomBorder bc W = Some row \<and> MeasureText tbl row = W \<and> newline \<notin> set row"
proof -
  let ?row = "Sprint bc BoxBottomLeft @ concat (replicate (nat (W - 2)) (Sprint bc BoxHorizontal))
              @ Sprint bc BoxBottomRight"
  have "bottomBorder bc W = Some ?row"
    using assms(2) by (simp add: bottomBorder_def Repeat_nonneg)
  moreover have "MeasureText tbl ?row = W"
    using assms(2) by (simp add: rule_row glyphs_clean narrowGlyphs_widths [OF assms(1)])
  moreover have "newline \<notin> set ?row" by (rule rule_row) (rule glyphs_clean)+
  ultimately show ?thesis by blast
qed

lemma paddingLine_row:
  assumes "narrowGlyphs tbl" and "2 \<le> W"
  shows "\<exists>row. paddingLine bc W = Some row \<and> MeasureText tbl row = W \<and> newline \<notin> set row"
proof -
  let ?row = "Sprint bc BoxVertical @ replicate (nat (W - 2)) space @ Sprint bc BoxVertical"
  have "paddingLine bc W = Some ?row"
    using assms(2) by (simp add: paddingLine_def Repeat_space)
  moreover have "StripANSI ?row = BoxVertical @ replicate (nat (W - 2)) space @ BoxVertical"
    by (simp add: StripANSI_def strip_Sprint strip_spaces strip_Sprint_end glyphs_clean)
  then have "MeasureText tbl ?row = W"
    using assms(2)
    by (simp add: MeasureText_def StringWidth_append StringWidth_spaces
        narrowGlyphs_widths [OF assms(1)])
  moreover have "newline \<notin> set ?row"
    by (simp add: Sprint_no_newline glyphs_clean) (simp add: newline_def space_def)
  ultimately show ?thesis by blast
qed

lemma paddingRows_rows:
  assumes "narrowGlyphs tbl" and "2 \<le> W"
  shows "\<exists>rows. paddingRows b bc W = Some rows
           \<and> (\<forall>row \<in> set rows. MeasureText tbl row = W \<and> newline \<notin> set row)"
proof -
  from paddingLine_row [OF assms] obtain row
    where "paddingLine bc W = Some row" "MeasureText tbl row = W" "newline \<notin> set row" by blast
  then show ?thesis by (simp add: paddingRows_def sequenceOpt_replicate)
qed

lemma Truncate_clean:
  assumes "escape \<notin> set s" and "newline \<notin> set s"
  shows "escape \<notin> set (Truncate tbl s w [ellipsis])"
    and "newline \<notin> set (Truncate tbl s w [ellipsis])"
  using Truncate_chars [of tbl s w "[ellipsis]"] assms
  by (auto simp: escape_def newline_def ellipsis_def)

lemma title_row:
  assumes "escape \<notin> set t" and "newline \<notin> set t"
  shows "MeasureText tbl
           (Sprint bc BoxTopLeft @ concat (replicate l (Sprint bc BoxHorizontal))
            @ Sprint bc (str ''[ '') @ Sprint tc t @ Sprint bc (str '' ]'')
            @ concat (replicate r (Sprint bc BoxHorizontal)) @ Sprint bc BoxTopRight)
         = StringWidth tbl BoxTopLeft + int l * StringWidth tbl BoxHorizontal + 2
           + StringWidth tbl t + 2 + int r * StringWidth tbl BoxHorizontal
           + StringWidth tbl BoxTopRight"
    and "newline \<notin> set
           (Sprint bc BoxTopLeft @ concat (replicate l (Sprint bc BoxHorizontal))
            @ Sprint bc (str ''[ '') @ Sprint tc t @ Sprint bc (str '' ]'')
            @ concat (replicate r (Sprint bc BoxHorizontal)) @ Sprint bc BoxTopRight)"
proof -
  have "StripANSI
           (Sprint bc BoxTopLeft @ concat (replicate l (Sprint bc BoxHorizontal))
            @ Sprint bc (str ''[ '') @ Sprint tc t @ Sprint bc (str '' ]'')
            @ concat (replicate r (Sprint bc BoxHorizontal)) @ Sprint bc BoxTopRight)
        = BoxTopLeft @ concat (replicate l BoxHorizontal) @ str ''[ '' @ t @ str '' ]''
          @ concat (replicate r BoxHorizontal) @ BoxTopRight"
    using assms(1)
    by (simp add: StripANSI_def strip_Sprint strip_repeat_Sprint strip_Sprint_end
        glyphs_clean brackets_clean)
  then show "MeasureText tbl
           (Sprint bc BoxTopLeft @ concat (replicate l (Sprint bc BoxHorizontal))
            @ Sprint bc (str ''[ '') @ Sprint tc t @ Sprint bc (str '' ]'')
            @ concat (replicate r (Sprint bc BoxHorizontal)) @ Sprint bc BoxTopRight)
         = StringWidth tbl BoxTopLeft + int l * StringWidth tbl BoxHorizontal + 2
           + StringWidth tbl t + 2 + int r * StringWidth tbl BoxHorizontal
           + StringWidth tbl BoxTopRight"
    by (simp add: MeasureText_def StringWidth_append StringWidth_concat_replicate brackets_clean)
  show "newline \<notin> set
           (Sprint bc BoxTopLeft @ concat (replicate l (Sprint bc BoxHorizontal))
            @ Sprint bc (str ''[ '') @ Sprint tc t @ Sprint bc (str '' ]'')
            @ concat (replicate r (Sprint bc BoxHorizontal)) @ Sprint bc BoxTopRight)"
    using assms(2) concat_replicate_no_newline [of "Sprint bc BoxHorizontal"]
    by (simp add: Sprint_no_newline glyphs_clean brackets_clean)
qed

lemma topBorder_row:
  assumes g: "narrowGlyphs tbl" and w: "2 \<le> W"
    and esc: "escape \<notin> set (box_title b)" and nl: "newline \<notin> set (box_title b)"
    and cut: "box_title b \<noteq> [] \<and> StringWidth tbl (box_title b) > W - 6 \<longrightarrow>
              StringWidth tbl (Truncate tbl (box_title b) (W - 6) [ellipsis]) = W - 6"
  shows "\<exists>row. topBorder tbl b bc tc W = Some row \<and> MeasureText tbl row = W \<and> newline \<notin> set row"
proof (cases "box_title b = []")
  case True
  let ?row = "Sprint bc BoxTopLeft @ concat (replicate (nat (W - 2)) (Sprint bc BoxHorizontal))
              @ Sprint bc BoxTopRight"
  have "topBorder tbl b bc tc W = Some ?row"
    using True w by (simp add: topBorder_def Repeat_nonneg)
  moreover have "MeasureText tbl ?row = W"
    using w by (simp add: rule_row glyphs_clean narrowGlyphs_widths [OF g])
  moreover have "newline \<notin> set ?row" by (rule rule_row) (rule glyphs_clean)+
  ultimately show ?thesis by blast
next
  case False
  show ?thesis
  proof (cases "StringWidth tbl (box_title b) > W - 6")
    case True
    let ?t = "Truncate tbl (box_title b) (W - 6) [ellipsis]"
    let ?row = "Sprint bc BoxTopLeft @ concat (replicate 0 (Sprint bc BoxHorizontal))
            @ Sprint bc (str ''[ '') @ Sprint tc ?t @ Sprint bc (str '' ]'')
            @ concat (replicate 0 (Sprint bc BoxHorizontal)) @ Sprint bc BoxTopRight"
    have tw: "StringWidth tbl ?t = W - 6" using cut False True by simp
    have "topBorder tbl b bc tc W = Some ?row"
      using False True by (simp add: topBorder_def Let_def Repeat_def signed_divide_int_def)
    moreover have "MeasureText tbl ?row = W"
      unfolding title_row (1) [OF Truncate_clean [OF esc nl]]
      by (simp add: tw narrowGlyphs_widths [OF g])
    moreover have "newline \<notin> set ?row"
      by (rule title_row (2) [OF Truncate_clean [OF esc nl]])
    ultimately show ?thesis by blast
  next
    case fits: False
    let ?total = "W - StringWidth tbl (box_title b) - 6"
    let ?l = "nat (?total div 2)"
    let ?r = "nat (?total - ?total div 2)"
    let ?row = "Sprint bc BoxTopLeft @ concat (replicate ?l (Sprint bc BoxHorizontal))
            @ Sprint bc (str ''[ '') @ Sprint tc (box_title b) @ Sprint bc (str '' ]'')
            @ concat (replicate ?r (Sprint bc BoxHorizontal)) @ Sprint bc BoxTopRight"
    have tot: "0 \<le> ?total" using fits by simp
    then have h: "0 \<le> ?total div 2" "0 \<le> ?total - ?total div 2" by linarith+
    have eq: "W - 2 - StringWidth tbl (box_title b) - 4 = ?total" by simp
    have "topBorder tbl b bc tc W = Some ?row"
      using False fits h tot
      by (simp add: topBorder_def Let_def Repeat_nonneg sdiv_nonneg eq)
    moreover have "MeasureText tbl ?row = W"
      unfolding title_row (1) [OF esc nl] using h
      by (simp add: narrowGlyphs_widths [OF g])
    moreover have "newline \<notin> set ?row" by (rule title_row (2) [OF esc nl])
    ultimately show ?thesis by blast
  qed
qed

lemma contentRow_row:
  assumes g: "narrowGlyphs tbl" and p: "0 \<le> box_padding b"
    and clean: "\<forall>l \<in> set contentLines. escape \<notin> set l \<and> newline \<notin> set l"
    and fit: "\<forall>l \<in> set contentLines. StringWidth tbl l \<le> contentWidth"
    and cw: "0 \<le> contentWidth"
  shows "\<exists>row. contentRow tbl b bc cc contentWidth contentLines i = Some row
           \<and> MeasureText tbl row = contentWidth + 2 * box_padding b + 2 \<and> newline \<notin> set row"
proof -
  define plain where "plain = (if i < length contentLines then contentLines ! i else [])"
  define line where "line = (if i < length contentLines then Sprint cc (contentLines ! i) else [])"
  have t_clean: "escape \<notin> set plain" "newline \<notin> set plain"
    using clean by (simp_all add: plain_def)
  have t_fit: "StringWidth tbl plain \<le> contentWidth"
    using fit cw by (simp add: plain_def StringWidth_Nil)
  have strip_line: "\<And>rest. stripLoop False (line @ rest) = plain @ stripLoop False rest"
    using clean by (simp add: line_def plain_def strip_Sprint)
  have sl: "StripANSI line = plain" using strip_line [of "[]"] by (simp add: StripANSI_def)
  have l_nl: "newline \<notin> set line" using clean by (simp add: line_def Sprint_no_newline)
  let ?n = "nat (contentWidth - StringWidth tbl plain)"
  let ?pad = "replicate (nat (box_padding b)) space"
  let ?row = "Sprint bc BoxVertical @ ?pad @ (line @ replicate ?n space) @ ?pad
              @ Sprint bc BoxVertical"
  have "contentRow tbl b bc cc contentWidth contentLines i = Some ?row"
  proof (cases "contentWidth - StringWidth tbl plain > 0")
    case True
    then show ?thesis
      using p sl by (simp add: contentRow_def Let_def Repeat_space line_def [symmetric])
  next
    case False
    then have "?n = 0" by simp
    with False show ?thesis
      using p sl by (simp add: contentRow_def Let_def Repeat_space line_def [symmetric])
  qed
  moreover have "StripANSI ?row = BoxVertical @ ?pad @ plain @ replicate ?n space @ ?pad @ BoxVertical"
    by (simp add: StripANSI_def strip_Sprint strip_spaces strip_Sprint_end strip_line glyphs_clean)
  then have "MeasureText tbl ?row = contentWidth + 2 * box_padding b + 2"
    using t_fit p
    by (simp add: MeasureText_def StringWidth_append StringWidth_spaces
        narrowGlyphs_widths [OF g])
  moreover have "newline \<notin> set ?row"
    using l_nl by (simp add: Sprint_no_newline glyphs_clean) (simp add: newline_def space_def)
  ultimately show ?thesis by blast
qed

lemma sequenceOpt_all:
  "\<forall>x \<in> set xs. \<exists>y. f x = Some y \<and> P y \<Longrightarrow>
     \<exists>ys. sequenceOpt (map f xs) = Some ys \<and> (\<forall>y \<in> set ys. P y)"
proof (induction xs)
  case Nil
  then show ?case by simp
next
  case (Cons x xs)
  then obtain y where y: "f x = Some y" "P y" by auto
  from Cons obtain ys where ys: "sequenceOpt (map f xs) = Some ys" "\<forall>y \<in> set ys. P y" by auto
  have "sequenceOpt (map f (x # xs)) = Some (y # ys)" using y ys by simp
  with y ys show ?case by auto
qed

subsection \<open>Wrapped lines and titles that fit\<close>

lemma wrapLoop_fit:
  "\<forall>l \<in> set lines. StringWidth tbl l \<le> width \<Longrightarrow> StringWidth tbl cur \<le> width \<Longrightarrow>
   \<forall>w \<in> set ws. StringWidth tbl w \<le> width \<Longrightarrow>
     (\<forall>l \<in> set (fst (wrapLoop tbl width lines cur ws)). StringWidth tbl l \<le> width)
     \<and> StringWidth tbl (snd (wrapLoop tbl width lines cur ws)) \<le> width"
proof (induction ws arbitrary: lines cur)
  case Nil
  then show ?case by simp
next
  case (Cons word ws)
  have word: "StringWidth tbl word \<le> width"
    and rest: "\<forall>w \<in> set ws. StringWidth tbl w \<le> width" using Cons.prems(3) by simp_all
  let ?test = "(if cur \<noteq> [] then cur @ [space] else cur) @ word"
  show ?case
  proof (cases "StringWidth tbl ?test \<le> width")
    case True
    then have eq: "wrapLoop tbl width lines cur (word # ws) = wrapLoop tbl width lines ?test ws"
      by (simp add: Let_def)
    show ?thesis unfolding eq by (rule Cons.IH [OF Cons.prems(1) True rest])
  next
    case False
    with word have cur: "cur \<noteq> []" by auto
    with False have eq: "wrapLoop tbl width lines cur (word # ws)
        = wrapLoop tbl width (lines @ [cur]) word ws"
      by (simp add: Let_def)
    have pre: "\<forall>l \<in> set (lines @ [cur]). StringWidth tbl l \<le> width"
      using Cons.prems(1,2) by simp
    show ?thesis unfolding eq by (rule Cons.IH [OF pre word rest])
  qed
qed

lemma wrapLines_fit:
  assumes "0 \<le> width"
  shows "\<forall>l \<in> set result. StringWidth tbl l \<le> width \<Longrightarrow>
         \<forall>line \<in> set ls. \<forall>w \<in> set (Fields line). StringWidth tbl w \<le> width \<Longrightarrow>
         \<forall>l \<in> set (wrapLines tbl width result ls). StringWidth tbl l \<le> width"
proof (induction ls arbitrary: result)
  case Nil
  then show ?case by simp
next
  case (Cons line ls)
  have words: "\<forall>w \<in> set (Fields line). StringWidth tbl w \<le> width"
    and rest: "\<forall>line \<in> set ls. \<forall>w \<in> set (Fields line). StringWidth tbl w \<le> width"
    using Cons.prems(2) by simp_all
  have blank: "\<forall>l \<in> set (result @ [[]]). StringWidth tbl l \<le> width"
    using Cons.prems(1) assms by (simp add: StringWidth_Nil)
  show ?case
  proof (cases "line = [] \<or> Fields line = []")
    case True
    then have eq: "wrapLines tbl width result (line # ls) = wrapLines tbl width (result @ [[]]) ls"
      by auto
    show ?thesis unfolding eq by (rule Cons.IH [OF blank rest])
  next
    case False
    obtain res cur where wl: "wrapLoop tbl width result [] (Fields line) = (res, cur)"
      by (cases "wrapLoop tbl width result [] (Fields line)")
    have emp: "StringWidth tbl [] \<le> width" using assms by (simp add: StringWidth_Nil)
    from wrapLoop_fit [OF Cons.prems(1) emp words] wl
    have res: "\<forall>l \<in> set res. StringWidth tbl l \<le> width" and cur: "StringWidth tbl cur \<le> width"
      by simp_all
    let ?next = "if cur \<noteq> [] then res @ [cur] else res"
    have nxt: "\<forall>l \<in> set ?next. StringWidth tbl l \<le> width" using res cur by simp
    have eq: "wrapLines tbl width result (line # ls) = wrapLines tbl width ?next ls"
      using False wl by (simp add: Let_def)
    show ?thesis unfolding eq by (rule Cons.IH [OF nxt rest])
  qed
qed

lemma wrapContent_fit:
  assumes "0 < width"
    and "\<forall>line \<in> set (SplitLines (box_content b)). \<forall>w \<in> set (Fields line).
           StringWidth tbl w \<le> width"
  shows "\<forall>l \<in> set (wrapContent tbl b width). StringWidth tbl l \<le> width"
proof -
  have "\<forall>l \<in> set (wrapLines tbl width [] (SplitLines (box_content b))). StringWidth tbl l \<le> width"
    using assms by (intro wrapLines_fit) simp_all
  with assms(1) show ?thesis by (simp add: wrapContent_def)
qed

lemma StringWidth_narrow:
  "\<forall>r \<in> set s. RuneWidth tbl r = 1 \<Longrightarrow> StringWidth tbl s = int (length s)"
  by (induction s) (simp_all add: StringWidth_Nil StringWidth_Cons)

lemma truncateLoop_narrow:
  "\<forall>r \<in> set s. RuneWidth tbl r = 1 \<Longrightarrow> k \<le> w \<Longrightarrow>
     truncateLoop tbl w k s = take (nat (w - k)) s"
proof (induction s arbitrary: k)
  case Nil
  then show ?case by simp
next
  case (Cons r s)
  have r: "RuneWidth tbl r = 1" and s: "\<forall>r \<in> set s. RuneWidth tbl r = 1"
    using Cons.prems(1) by simp_all
  show ?case
  proof (cases "k + 1 > w")
    case True
    with Cons.prems(2) have "w - k = 0" by simp
    with True r show ?thesis by simp
  next
    case False
    then have k: "k + 1 \<le> w" by simp
    have n: "nat (w - k) = Suc (nat (w - (k + 1)))" using k by linarith
    from Cons.IH [OF s k] False r show ?thesis by (simp add: n)
  qed
qed

lemma Truncate_exact:
  assumes "\<forall>r \<in> set s. RuneWidth tbl r = 1" and "RuneWidth tbl ellipsis = 1"
    and "1 \<le> w" and "w < StringWidth tbl s"
  shows "StringWidth tbl (Truncate tbl s w [ellipsis]) = w"
proof -
  have len: "w < int (length s)" using assms(1,4) by (simp add: StringWidth_narrow)
  have m: "StringWidth tbl [ellipsis] = 1" using assms(2) by (simp add: StringWidth_def)
  have "Truncate tbl s w [ellipsis] = take (nat (w - 1)) s @ [ellipsis]"
    using assms(3,4) truncateLoop_narrow [OF assms(1), of 0 "w - 1"] by (simp add: Truncate_def m)
  moreover have "\<forall>r \<in> set (take (nat (w - 1)) s). RuneWidth tbl r = 1"
    using assms(1) by (meson in_set_takeD)
  ultimately show ?thesis
    using len assms(3) by (simp add: StringWidth_append StringWidth_narrow m)
qed

subsection \<open>The rows of a bordered box\<close>

lemma borderedLines_rows:
  assumes g: "narrowGlyphs tbl" and p: "0 \<le> box_padding b"
    and cw: "1 \<le> W - 2 - box_padding b * 2"
    and esc: "escape \<notin> set (box_title b)" and nl: "newline \<notin> set (box_title b)"
    and cesc: "escape \<notin> set (box_content b)"
    and cut: "box_title b \<noteq> [] \<and> StringWidth tbl (box_title b) > W - 6 \<longrightarrow>
              StringWidth tbl (Truncate tbl (box_title b) (W - 6) [ellipsis]) = W - 6"
    and fit: "\<forall>l \<in> set (wrapContent tbl b (W - 2 - box_padding b * 2)).
                StringWidth tbl l \<le> W - 2 - box_padding b * 2"
  shows "\<exists>rows. borderedLines tbl b theme W H = Some rows \<and> rows \<noteq> []
           \<and> (\<forall>row \<in> set rows. MeasureText tbl row = W \<and> newline \<notin> set row)"
proof -
  let ?ok = "\<lambda>row. MeasureText tbl row = W \<and> newline \<notin> set row"
  define bc where "bc = (case box_borderStyle b of None \<Rightarrow> Border theme | Some c \<Rightarrow> c)"
  define tc where "tc = (case box_titleStyle b of None \<Rightarrow> Header theme | Some c \<Rightarrow> c)"
  define cc where "cc = (case box_contentStyle b of None \<Rightarrow> Primary theme | Some c \<Rightarrow> c)"
  define cwd where "cwd = W - 2 - box_padding b * 2"
  define ls where "ls = wrapContent tbl b cwd"
  define n where "n = nat (H - 2 - 2 * box_padding b)"
  have w2: "2 \<le> W" using p cw by linarith
  have cpos: "0 < cwd" "0 \<le> cwd" "\<not> cwd \<le> 0" using cw by (simp_all add: cwd_def)
  from topBorder_row [OF g w2 esc nl cut, of bc tc]
  obtain top where top: "topBorder tbl b bc tc W = Some top" "?ok top" by blast
  from paddingRows_rows [OF g w2, of b bc]
  obtain blank where blank: "paddingRows b bc W = Some blank" "\<forall>row \<in> set blank. ?ok row"
    by blast
  from bottomBorder_row [OF g w2, of bc]
  obtain bottom where bottom: "bottomBorder bc W = Some bottom" "?ok bottom" by blast
  have clean: "\<forall>l \<in> set ls. escape \<notin> set l \<and> newline \<notin> set l"
    using wrapContent_clean [OF cpos(1) _ cesc, of _ tbl] by (simp add: ls_def)
  have lfit: "\<forall>l \<in> set ls. StringWidth tbl l \<le> cwd" using fit by (simp add: ls_def cwd_def)
  have "\<forall>i \<in> set [0..<n]. \<exists>row. contentRow tbl b bc cc cwd ls i = Some row \<and> ?ok row"
  proof
    fix i assume "i \<in> set [0..<n]"
    from contentRow_row [OF g p clean lfit cpos(2), of bc cc i]
    obtain row where "contentRow tbl b bc cc cwd ls i = Some row"
      "MeasureText tbl row = cwd + 2 * box_padding b + 2" "newline \<notin> set row" by blast
    then show "\<exists>row. contentRow tbl b bc cc cwd ls i = Some row \<and> ?ok row"
      by (simp add: cwd_def)
  qed
  from sequenceOpt_all [OF this]
  obtain body where body: "sequenceOpt (map (contentRow tbl b bc cc cwd ls) [0..<n]) = Some body"
    "\<forall>row \<in> set body. ?ok row" by blast
  have "borderedLines tbl b theme W H = Some ([top] @ blank @ body @ blank @ [bottom])"
    using top(1) blank(1) body(1) bottom(1) cpos(3) p
    by (simp add: borderedLines_def Let_def bc_def [symmetric] tc_def [symmetric]
        cc_def [symmetric] cwd_def [symmetric] ls_def [symmetric] n_def [symmetric])
  moreover have "\<forall>row \<in> set ([top] @ blank @ body @ blank @ [bottom]). ?ok row"
    using top(2) blank(2) body(2) bottom(2) by auto
  ultimately show ?thesis by blast
qed

lemma Box_Render_row_widths:
  assumes vis: "\<not> IsHidden (box_component b)" and bord: "box_border b"
    and p: "0 \<le> box_padding b"
    and W: "W = resolveWidth tbl b" and H: "H = resolveHeight tbl b W"
    and h3: "3 \<le> H" and cw: "1 \<le> W - 2 - box_padding b * 2"
    and g: "narrowGlyphs tbl"
    and esc: "escape \<notin> set (box_title b)" and nl: "newline \<notin> set (box_title b)"
    and cesc: "escape \<notin> set (box_content b)"
    and cut: "box_title b \<noteq> [] \<and> StringWidth tbl (box_title b) > W - 6 \<longrightarrow>
              StringWidth tbl (Truncate tbl (box_title b) (W - 6) [ellipsis]) = W - 6"
    and fit: "\<forall>l \<in> set (wrapContent tbl b (W - 2 - box_padding b * 2)).
                StringWidth tbl l \<le> W - 2 - box_padding b * 2"
  shows "\<exists>out. Box_Render tbl b theme = Some out
           \<and> (\<forall>line \<in> set (SplitLines out). MeasureText tbl line = W)"
proof -
  from borderedLines_rows [OF g p cw esc nl cesc cut fit, of theme H]
  obtain rows where rows: "borderedLines tbl b theme W H = Some rows" "rows \<noteq> []"
    "\<forall>row \<in> set rows. MeasureText tbl row = W \<and> newline \<notin> set row" by blast
  have w3: "\<not> W < 3" using p cw by linarith
  have "renderWithBorder tbl b theme W H = Some (Join rows [newline])"
    using rows(1) w3 h3 by (simp add: renderWithBorder_def)
  then have "Box_Render tbl b theme = Some (Join rows [newline])"
    using vis bord W H by (simp add: Box_Render_def Let_def)
  moreover have "SplitLines (Join rows [newline]) = rows"
    using rows(2,3) by (intro SplitLines_Join) simp_all
  ultimately show ?thesis using rows(3) by simp
qed

lemma Box_Render_row_widths_plain:
  assumes vis: "\<not> IsHidden (box_component b)" and bord: "box_border b"
    and p: "0 \<le> box_padding b"
    and W: "W = resolveWidth tbl b" and H: "H = resolveHeight tbl b W"
    and h3: "3 \<le> H" and cw: "1 \<le> W - 2 - box_padding b * 2"
    and g: "narrowGlyphs tbl"
    and esc: "escape \<notin> set (box_title b)" and nl: "newline \<notin> set (box_title b)"
    and cesc: "escape \<notin> set (box_content b)"
    and title: "StringWidth tbl (box_title b) \<le> W - 6
                \<or> (7 \<le> W \<and> RuneWidth tbl ellipsis = 1
                    \<and> (\<forall>r \<in> set (box_title b). RuneWidth tbl r = 1))"
    and words: "\<forall>line \<in> set (SplitLines (box_content b)). \<forall>w \<in> set (Fields line).
                  StringWidth tbl w \<le> W - 2 - box_padding b * 2"
  shows "\<exists>out. Box_Render tbl b theme = Some out
           \<and> (\<forall>line \<in> set (SplitLines out). MeasureText tbl line = W)"
proof -
  have cut: "box_title b \<noteq> [] \<and> StringWidth tbl (box_title b) > W - 6 \<longrightarrow>
              StringWidth tbl (Truncate tbl (box_title b) (W - 6) [ellipsis]) = W - 6"
  proof
    assume a: "box_title b \<noteq> [] \<and> StringWidth tbl (box_title b) > W - 6"
    with title have n: "7 \<le> W" "RuneWidth tbl ellipsis = 1"
      "\<forall>r \<in> set (box_title b). RuneWidth tbl r = 1" by auto
    from n(1) have "1 \<le> W - 6" by simp
    from Truncate_exact [OF n(3) n(2) this] a
    show "StringWidth tbl (Truncate tbl (box_title b) (W - 6) [ellipsis]) = W - 6" by simp
  qed
  have fit: "\<forall>l \<in> set (wrapContent tbl b (W - 2 - box_padding b * 2)).
                StringWidth tbl l \<le> W - 2 - box_padding b * 2"
    using cw words by (intro wrapContent_fit) simp_all
  show ?thesis
    by (rule Box_Render_row_widths [OF vis bord p W H h3 cw g esc nl cesc cut fit])
qed

text \<open>
  Claim C1, as amended. For every visible bordered box with a padding of at least 0, a
  resolved height of at least 3 and a resolved width \<open>W\<close> that leaves a content width
  \<open>W - 2 - 2 * padding\<close> of at least 1, under a width table that gives the six border glyphs
  one column, with a title free of escape and newline runes and a content free of escape
  runes: if the title is empty, fits the bracket space \<open>W - 6\<close> or is cut to exactly that
  width, and every wrapped content line fits the content width, then \<open>Box.Render\<close> returns
  without panic, and every line of its output, border lines included, has the measured
  width \<open>W\<close>.
\<close>

theorem C1_box_width_amended:
  assumes vis: "\<not> IsHidden (box_component b)" and bord: "box_border b"
    and p: "0 \<le> box_padding b"
    and W: "W = resolveWidth tbl b" and H: "H = resolveHeight tbl b W"
    and h3: "3 \<le> H" and cw: "1 \<le> W - 2 - box_padding b * 2"
    and g: "narrowGlyphs tbl"
    and esc: "escape \<notin> set (box_title b)" and nl: "newline \<notin> set (box_title b)"
    and cesc: "escape \<notin> set (box_content b)"
    and cut: "box_title b \<noteq> [] \<and> StringWidth tbl (box_title b) > W - 6 \<longrightarrow>
              StringWidth tbl (Truncate tbl (box_title b) (W - 6) [ellipsis]) = W - 6"
    and fit: "\<forall>l \<in> set (wrapContent tbl b (W - 2 - box_padding b * 2)).
                StringWidth tbl l \<le> W - 2 - box_padding b * 2"
  shows "\<exists>out. Box_Render tbl b theme = Some out
           \<and> (\<forall>line \<in> set (SplitLines out). MeasureText tbl line = W)"
  by (rule Box_Render_row_widths [OF assms])

lemma titledBox_fields:
  "box_title titledBox = str ''Long Title''" "box_content titledBox = str ''Test content''"
  "box_padding titledBox = 1" "box_border titledBox" "\<not> IsHidden (box_component titledBox)"
  "resolveWidth sampleTable titledBox = 12"
  by (simp_all add: titledBox_def NewBox_def NewComponent_def IsHidden_def resolveWidth_def
      GetWidth_def)

lemma titledBox_height: "resolveHeight sampleTable titledBox 12 = 7"
  by (simp add: resolveHeight_def calculateHeight_def titledBox_def NewBox_def NewComponent_def
      GetHeight_def SplitLines_def newline_def StringWidth_def RuneWidth_def str_def
      signed_divide_int_def)

lemma titledBox_lines:
  "wrapContent sampleTable titledBox 8 = [str ''Test'', str ''content'']"
  by (simp add: wrapContent_def titledBox_fields SplitLines_def newline_def Fields_def
      isSpace_def StringWidth_def RuneWidth_def str_def space_def)

lemma titledBox_cut:
  "StringWidth sampleTable (Truncate sampleTable (str ''Long Title'') 6 [ellipsis]) = 6"
  by (simp add: Truncate_def StringWidth_def RuneWidth_def str_def ellipsis_def sampleTable_def)

lemma narrowGlyphs_sampleTable: "narrowGlyphs sampleTable"
  by (simp add: narrowGlyphs_def sampleTable_def BoxTopLeft_def BoxTopRight_def
      BoxBottomLeft_def BoxBottomRight_def BoxHorizontal_def BoxVertical_def)

theorem C1_box_width_amended_witness:
  "\<not> IsHidden (box_component titledBox) \<and> box_border titledBox \<and> 0 \<le> box_padding titledBox
   \<and> resolveWidth sampleTable titledBox = 12 \<and> resolveHeight sampleTable titledBox 12 = 7
   \<and> narrowGlyphs sampleTable
   \<and> StringWidth sampleTable (box_title titledBox) > 12 - 6
   \<and> (\<exists>out. Box_Render sampleTable titledBox DefaultTheme = Some out
         \<and> (\<forall>line \<in> set (SplitLines out). MeasureText sampleTable line = 12))"
proof -
  have esc: "escape \<notin> set (box_title titledBox)" "newline \<notin> set (box_title titledBox)"
    "escape \<notin> set (box_content titledBox)"
    by (simp_all add: titledBox_fields str_def escape_def newline_def)
  have cut: "box_title titledBox \<noteq> [] \<and> StringWidth sampleTable (box_title titledBox) > 12 - 6
      \<longrightarrow> StringWidth sampleTable (Truncate sampleTable (box_title titledBox) (12 - 6) [ellipsis])
         = 12 - 6"
    by (simp add: titledBox_fields titledBox_cut)
  have fit: "\<forall>l \<in> set (wrapContent sampleTable titledBox (12 - 2 - box_padding titledBox * 2)).
      StringWidth sampleTable l \<le> 12 - 2 - box_padding titledBox * 2"
    by (simp add: titledBox_fields titledBox_lines) (simp add: StringWidth_def RuneWidth_def str_def)
  have long: "StringWidth sampleTable (box_title titledBox) > 12 - 6"
    by (simp add: titledBox_fields StringWidth_def RuneWidth_def str_def)
  have vis: "\<not> IsHidden (box_component titledBox)" and bord: "box_border titledBox"
    and p: "0 \<le> box_padding titledBox"
    and W: "12 = resolveWidth sampleTable titledBox"
    and H: "7 = resolveHeight sampleTable titledBox 12"
    and h3: "(3::int) \<le> 7" and cw: "1 \<le> 12 - 2 - box_padding titledBox * 2"
    by (simp_all add: titledBox_fields titledBox_height)
  have "\<exists>out. Box_Render sampleTable titledBox DefaultTheme = Some out
         \<and> (\<forall>line \<in> set (SplitLines out). MeasureText sampleTable line = 12)"
    by (rule C1_box_width_amended
          [OF vis bord p W H h3 cw narrowGlyphs_sampleTable esc(1) esc(2) esc(3) cut fit])
  with long show ?thesis
    by (simp add: titledBox_fields titledBox_height narrowGlyphs_sampleTable)
qed

text \<open>
  Claim C1 as stated fails below the floor of 3 columns: the box of explicit width 2 with the
  content \<open>"hello"\<close> is visible and bordered, its resolved width is 2, and its rendered
  output is the raw content, whose only line measures 5.
\<close>

theorem C1_box_width_counterexample:
  "\<not> IsHidden (box_component tinyBox) \<and> box_border tinyBox
   \<and> resolveWidth sampleTable tinyBox = 2
   \<and> Box_Render sampleTable tinyBox DefaultTheme = Some (str ''hello'')
   \<and> SplitLines (str ''hello'') = [str ''hello'']
   \<and> MeasureText sampleTable (str ''hello'') = 5"
  by (simp add: Box_Render_def renderWithBorder_def resolveWidth_def resolveHeight_def
      tinyBox_def NewBox_def NewComponent_def IsHidden_def GetWidth_def
      SplitLines_def newline_def MeasureText_def StripANSI_def escape_def StringWidth_def
      RuneWidth_def str_def)

text \<open>
  Two boxes outside the amended claim. The width computed for a box of automatic size
  leaves less room than the brackets need, so the title of three ideographs is cut to the
  budget 4; the cut keeps one ideograph and the marker, 3 columns, and the top line
  measures 9 in a box of width 10. A box with neither title nor content has the width 4
  and the content width 0, which is raised to 1, so its content row measures 5.
\<close>

lemma cjkBox_width: "resolveWidth sampleTable cjkBox = 10"
  by (simp add: resolveWidth_def calculateWidth_def cjkBox_def NewBox_def NewComponent_def
      GetWidth_def SplitLines_def newline_def StringWidth_def RuneWidth_def str_def
      sampleTable_def)

lemma cjkBox_top_line:
  "\<exists>row. topBorder sampleTable cjkBox (Border DefaultTheme) (Header DefaultTheme) 10 = Some row
         \<and> MeasureText sampleTable row = 9"
proof -
  let ?t = "[20320, 8230]"
  let ?bc = "Border DefaultTheme" and ?tc = "Header DefaultTheme"
  let ?row = "Sprint ?bc BoxTopLeft @ concat (replicate 0 (Sprint ?bc BoxHorizontal))
            @ Sprint ?bc (str ''[ '') @ Sprint ?tc ?t @ Sprint ?bc (str '' ]'')
            @ concat (replicate 0 (Sprint ?bc BoxHorizontal)) @ Sprint ?bc BoxTopRight"
  have cut: "Truncate sampleTable (box_title cjkBox) 4 [ellipsis] = ?t"
    by (simp add: cjkBox_def NewBox_def Truncate_def StringWidth_def RuneWidth_def
        sampleTable_def ellipsis_def)
  have long: "4 < StringWidth sampleTable (box_title cjkBox)"
    by (simp add: cjkBox_def NewBox_def StringWidth_def RuneWidth_def sampleTable_def)
  have ne: "box_title cjkBox \<noteq> []" by (simp add: cjkBox_def NewBox_def)
  have "topBorder sampleTable cjkBox ?bc ?tc 10 = Some ?row"
    using long ne by (simp add: topBorder_def Let_def Repeat_def signed_divide_int_def cut)
  moreover have "MeasureText sampleTable ?row = 9"
  proof -
    have c: "escape \<notin> set ?t" "newline \<notin> set ?t" by (simp_all add: escape_def newline_def)
    show ?thesis unfolding title_row (1) [OF c]
      by (simp add: narrowGlyphs_widths [OF narrowGlyphs_sampleTable])
         (simp add: StringWidth_def RuneWidth_def sampleTable_def)
  qed
  ultimately show ?thesis by blast
qed

lemma emptyBox_content_row:
  "resolveWidth sampleTable NewBox = 4
   \<and> (\<exists>row. contentRow sampleTable NewBox (Border DefaultTheme) (Primary DefaultTheme) 1
                 (wrapContent sampleTable NewBox 1) 0 = Some row
         \<and> MeasureText sampleTable row = 5)"
proof -
  have w: "resolveWidth sampleTable NewBox = 4"
    by (simp add: resolveWidth_def calculateWidth_def NewBox_def NewComponent_def GetWidth_def
        SplitLines_def StringWidth_def)
  have ls: "wrapContent sampleTable NewBox 1 = [[]]"
    by (simp add: wrapContent_def NewBox_def SplitLines_def)
  have p: "0 \<le> box_padding NewBox" by (simp add: NewBox_def)
  from contentRow_row [OF narrowGlyphs_sampleTable p, of "[[]]" 1
        "Border DefaultTheme" "Primary DefaultTheme" 0]
  obtain row where "contentRow sampleTable NewBox (Border DefaultTheme) (Primary DefaultTheme) 1
      [[]] 0 = Some row" "MeasureText sampleTable row = 1 + 2 * box_padding NewBox + 2"
    by (auto simp: StringWidth_Nil)
  then show ?thesis using w ls by (simp add: NewBox_def)
qed

text \<open>
  Two more boxes outside the amended claim. In the box of width 7 the word of 8 columns
  follows a word on its line and is laid out untruncated, so its row measures 12. With a
  negative padding a box of at least 3 by 3 is not rendered at all: the first content row
  repeats the blank a negative number of times, which panics.
\<close>

lemma contentRow_overwide:
  assumes g: "narrowGlyphs tbl" and p: "0 \<le> box_padding b"
    and i: "i < length contentLines"
    and clean: "escape \<notin> set (contentLines ! i)"
    and wide: "contentWidth < StringWidth tbl (contentLines ! i)"
  shows "\<exists>row. contentRow tbl b bc cc contentWidth contentLines i = Some row
           \<and> MeasureText tbl row = StringWidth tbl (contentLines ! i) + 2 * box_padding b + 2"
proof -
  let ?l = "contentLines ! i"
  let ?pad = "replicate (nat (box_padding b)) space"
  let ?row = "Sprint bc BoxVertical @ ?pad @ Sprint cc ?l @ ?pad @ Sprint bc BoxVertical"
  have sl: "StripANSI (Sprint cc ?l) = ?l"
    using clean by (simp add: StripANSI_def strip_Sprint_end)
  have "contentRow tbl b bc cc contentWidth contentLines i = Some ?row"
    using i p wide by (simp add: contentRow_def Let_def Repeat_space sl)
  moreover have "StripANSI ?row = BoxVertical @ ?pad @ ?l @ ?pad @ BoxVertical"
    using clean
    by (simp add: StripANSI_def strip_Sprint strip_spaces strip_Sprint_end glyphs_clean)
  then have "MeasureText tbl ?row = StringWidth tbl ?l + 2 * box_padding b + 2"
    using p
    by (simp add: MeasureText_def StringWidth_append StringWidth_spaces
        narrowGlyphs_widths [OF g])
  ultimately show ?thesis by blast
qed

lemma wideBox_content_row:
  "resolveWidth sampleTable wideBox = 7
   \<and> wrapContent sampleTable wideBox 3 = [str ''a'', str ''bbbbbbbb'']
   \<and> (\<exists>row. contentRow sampleTable wideBox (Border DefaultTheme) (Primary DefaultTheme) 3
                 (wrapContent sampleTable wideBox 3) 1 = Some row
         \<and> MeasureText sampleTable row = 12)"
proof -
  have w: "resolveWidth sampleTable wideBox = 7"
    by (simp add: resolveWidth_def wideBox_def NewBox_def NewComponent_def GetWidth_def)
  have ls: "wrapContent sampleTable wideBox 3 = [str ''a'', str ''bbbbbbbb'']"
    by (simp add: wrapContent_def wideBox_def NewBox_def SplitLines_def newline_def Fields_def
        isSpace_def StringWidth_def RuneWidth_def str_def space_def)
  have p: "0 \<le> box_padding wideBox" by (simp add: wideBox_def NewBox_def)
  have sw: "StringWidth sampleTable (str ''bbbbbbbb'') = 8"
    by (simp add: StringWidth_def RuneWidth_def str_def)
  from contentRow_overwide [OF narrowGlyphs_sampleTable p,
        of 1 "[str ''a'', str ''bbbbbbbb'']" 3 "Border DefaultTheme" "Primary DefaultTheme"]
  obtain row where "contentRow sampleTable wideBox (Border DefaultTheme) (Primary DefaultTheme) 3
      [str ''a'', str ''bbbbbbbb''] 1 = Some row"
    "MeasureText sampleTable row = 8 + 2 * box_padding wideBox + 2"
    by (auto simp: sw) (auto simp: str_def escape_def)
  then show ?thesis using w ls by (simp add: wideBox_def NewBox_def)
qed

lemma negative_padding_panics:
  assumes "box_padding b < 0" and "3 \<le> W" and "3 \<le> H"
  shows "renderWithBorder tbl b theme W H = None"
proof -
  have n: "[0..<nat (H - 2 - int (nat (box_padding b)) - box_padding b)]
            = 0 # [1..<nat (H - 2 - int (nat (box_padding b)) - box_padding b)]"
    using assms(1,3) by (simp add: upt_conv_Cons)
  have row: "\<And>bc cc cw ls. contentRow tbl b bc cc cw ls 0 = None"
    using assms(1) by (simp add: contentRow_def Let_def Repeat_def)
  have "borderedLines tbl b theme W H = None"
    unfolding borderedLines_def Let_def n by (simp add: row)
  with assms(2,3) show ?thesis by (simp add: renderWithBorder_def)
qed

section \<open>Rendering a table\<close>

lemma stripsTo_Nil: "stripsTo [] []"
  by (simp add: stripsTo_def)

lemma stripsTo_plain: "escape \<notin> set x \<Longrightarrow> stripsTo x x"
  by (simp add: stripsTo_def strip_plain)

lemma stripsTo_Sprint: "escape \<notin> set x \<Longrightarrow> stripsTo (Sprint c x) x"
  by (simp add: stripsTo_def strip_Sprint)

lemma stripsTo_append: "stripsTo a p \<Longrightarrow> stripsTo b q \<Longrightarrow> stripsTo (a @ b) (p @ q)"
  by (simp add: stripsTo_def)

lemma stripsTo_measure: "stripsTo s p \<Longrightarrow> MeasureText tbl s = StringWidth tbl p"
proof -
  assume "stripsTo s p"
  then have "stripLoop False (s @ []) = p @ stripLoop False []" unfolding stripsTo_def by blast
  then show ?thesis by (simp add: MeasureText_def StripANSI_def)
qed

lemma Join_empty_sep: "Join xs [] = concat xs"
  by (induction xs "[]::gostring" rule: Join.induct) simp_all

lemma Join_Cons_more: "ys \<noteq> [] \<Longrightarrow> Join (x # ys) sep = x @ sep @ Join ys sep"
  by (cases ys) simp_all

lemma PadText_chars:
  assumes "StringWidth tbl s \<le> w" and "PadText tbl s w align = Some r"
  shows "set r \<subseteq> set s \<union> {space}"
  using assms(2) unfolding PadText_pads [OF assms(1)]
  by (auto simp: Let_def split: if_splits)

lemma renderCell_ok:
  assumes pos: "0 < width" and mark: "StringWidth tbl [ellipsis] \<le> width"
    and clean: "\<forall>c \<in> set cells. escape \<notin> set c \<and> newline \<notin> set c"
  shows "\<exists>padded. renderCell tbl t cells color i width = Some (Sprint color padded)
           \<and> escape \<notin> set padded \<and> newline \<notin> set padded
           \<and> StringWidth tbl padded = width"
proof -
  define cell where "cell = (if i < length cells then cells ! i else [])"
  define cut where "cut = (if StringWidth tbl cell > width
                           then Truncate tbl cell width [ellipsis] else cell)"
  have c0: "escape \<notin> set cell" "newline \<notin> set cell" using clean by (simp_all add: cell_def)
  have c1: "escape \<notin> set cut" "newline \<notin> set cut"
    using c0 Truncate_clean [OF c0, of tbl width] by (simp_all add: cut_def)
  have fit: "StringWidth tbl cut \<le> width"
    using Truncate_width [OF mark, of cell] by (simp add: cut_def)
  from PadText_exact_raw [OF fit, of "getAlignment t i"]
  obtain padded where padded: "PadText tbl cut width (getAlignment t i) = Some padded"
    "StringWidth tbl padded = width" by blast
  from PadText_chars [OF fit padded(1)] c1
  have "escape \<notin> set padded" "newline \<notin> set padded"
    by (auto simp: escape_def newline_def space_def)
  moreover have "renderCell tbl t cells color i width = Some (Sprint color padded)"
    using padded(1)
    by (simp add: renderCell_def Let_def cell_def [symmetric] cut_def [symmetric])
  ultimately show ?thesis using padded(2) by blast
qed

lemma narrowTableGlyphs_widths:
  assumes "narrowTableGlyphs tbl"
  shows "StringWidth tbl BoxTopLeft = 1" and "StringWidth tbl BoxTopRight = 1"
    and "StringWidth tbl BoxBottomLeft = 1" and "StringWidth tbl BoxBottomRight = 1"
    and "StringWidth tbl BoxHorizontal = 1" and "StringWidth tbl BoxVertical = 1"
    and "StringWidth tbl BoxTee = 1" and "StringWidth tbl BoxCross = 1"
    and "StringWidth tbl BoxTeeRight = 1" and "StringWidth tbl BoxTeeTop = 1"
    and "StringWidth tbl BoxTeeBottom = 1"
  using assms
  by (simp_all add: narrowTableGlyphs_def StringWidth_def RuneWidth_def BoxTopLeft_def
      BoxTopRight_def BoxBottomLeft_def BoxBottomRight_def BoxHorizontal_def BoxVertical_def
      BoxTee_def BoxCross_def BoxTeeRight_def BoxTeeTop_def BoxTeeBottom_def)

lemma tees_clean:
  "escape \<notin> set BoxTee" "escape \<notin> set BoxCross" "escape \<notin> set BoxTeeRight"
  "escape \<notin> set BoxTeeTop" "escape \<notin> set BoxTeeBottom"
  "newline \<notin> set BoxTee" "newline \<notin> set BoxCross" "newline \<notin> set BoxTeeRight"
  "newline \<notin> set BoxTeeTop" "newline \<notin> set BoxTeeBottom"
  by (simp_all add: escape_def newline_def BoxTee_def BoxCross_def BoxTeeRight_def
      BoxTeeTop_def BoxTeeBottom_def)

lemma rowParts_ok:
  assumes g: "StringWidth tbl BoxVertical = 1"
    and clean: "\<forall>c \<in> set cells. escape \<notin> set c \<and> newline \<notin> set c"
  shows "\<forall>w \<in> set ws. 0 < w \<and> StringWidth tbl [ellipsis] \<le> w \<Longrightarrow>
         \<exists>parts p. rowParts tbl t cells cc bc i ws = Some parts \<and> stripsTo (concat parts) p
           \<and> newline \<notin> set (concat parts)
           \<and> StringWidth tbl p = sum_list ws + 3 * int (length ws)"
proof (induction ws arbitrary: i)
  case Nil
  have "stripsTo [] [] \<and> StringWidth tbl [] = 0" by (simp add: stripsTo_Nil StringWidth_Nil)
  then show ?case by auto
next
  case (Cons w ws)
  have w: "0 < w" "StringWidth tbl [ellipsis] \<le> w"
    and rest: "\<forall>w \<in> set ws. 0 < w \<and> StringWidth tbl [ellipsis] \<le> w" using Cons.prems by simp_all
  from renderCell_ok [OF w clean, of t cc i]
  obtain padded where padded: "renderCell tbl t cells cc i w = Some (Sprint cc padded)"
    "escape \<notin> set padded" "newline \<notin> set padded" "StringWidth tbl padded = w" by blast
  from Cons.IH [OF rest, of "Suc i"]
  obtain parts p where parts: "rowParts tbl t cells cc bc (Suc i) ws = Some parts"
    "stripsTo (concat parts) p" "newline \<notin> set (concat parts)"
    "StringWidth tbl p = sum_list ws + 3 * int (length ws)" by blast
  let ?new = "[[space] @ Sprint cc padded @ [space], Sprint bc BoxVertical] @ parts"
  let ?p = "([space] @ padded @ [space] @ BoxVertical) @ p"
  have "rowParts tbl t cells cc bc i (w # ws) = Some ?new"
    using padded(1) parts(1) by simp
  moreover have "stripsTo (concat ?new) ?p"
  proof -
    have sp: "stripsTo [space] [space]" by (rule stripsTo_plain) (simp add: escape_def space_def)
    have "stripsTo ([space] @ Sprint cc padded @ [space] @ Sprint bc BoxVertical)
            ([space] @ padded @ [space] @ BoxVertical)"
      by (intro stripsTo_append sp stripsTo_Sprint padded(2) glyphs_clean)
    from stripsTo_append [OF this parts(2)] show ?thesis by simp
  qed
  moreover have "newline \<notin> set (concat ?new)"
    using padded(3) parts(3) by (simp add: Sprint_no_newline glyphs_clean) (simp add: newline_def space_def)
  moreover have "StringWidth tbl ?p = sum_list (w # ws) + 3 * int (length (w # ws))"
    using padded(4) parts(4) g
    by (simp add: StringWidth_append StringWidth_Cons StringWidth_Nil RuneWidth_def space_def)
  ultimately show ?case by blast
qed

lemma horizontal_run:
  assumes "StringWidth tbl BoxHorizontal = 1" and "0 \<le> n"
  shows "\<exists>seg. Repeat BoxHorizontal n = Some seg \<and> escape \<notin> set seg \<and> newline \<notin> set seg
           \<and> StringWidth tbl seg = n"
proof -
  let ?seg = "concat (replicate (nat n) BoxHorizontal)"
  have "Repeat BoxHorizontal n = Some ?seg" using assms(2) by (simp add: Repeat_def)
  moreover have "escape \<notin> set ?seg" "newline \<notin> set ?seg"
    by (simp_all add: BoxHorizontal_def escape_def newline_def)
  moreover have "StringWidth tbl ?seg = n"
    using assms by (simp add: StringWidth_concat_replicate)
  ultimately show ?thesis by blast
qed

lemma ruleParts_ok:
  assumes h: "StringWidth tbl BoxHorizontal = 1" and tw: "StringWidth tbl tee = 1"
    and te: "escape \<notin> set tee" and tn: "newline \<notin> set tee"
  shows "\<forall>w \<in> set ws. 0 < w \<Longrightarrow>
         \<exists>parts p. ruleParts bc tee i ws = Some parts \<and> stripsTo (concat parts) p
           \<and> newline \<notin> set (concat parts)
           \<and> StringWidth tbl p
               = sum_list ws + 3 * int (length ws) - (if i = 0 \<and> ws \<noteq> [] then 1 else 0)"
proof (induction ws arbitrary: i)
  case Nil
  have "stripsTo [] [] \<and> StringWidth tbl [] = 0" by (simp add: stripsTo_Nil StringWidth_Nil)
  then show ?case by auto
next
  case (Cons w ws)
  have w: "0 \<le> w + 2" and rest: "\<forall>w \<in> set ws. 0 < w" using Cons.prems by simp_all
  from horizontal_run [OF h w]
  obtain seg where seg: "Repeat BoxHorizontal (w + 2) = Some seg" "escape \<notin> set seg"
    "newline \<notin> set seg" "StringWidth tbl seg = w + 2" by blast
  from Cons.IH [OF rest, of "Suc i"]
  obtain parts p where parts: "ruleParts bc tee (Suc i) ws = Some parts"
    "stripsTo (concat parts) p" "newline \<notin> set (concat parts)"
    "StringWidth tbl p = sum_list ws + 3 * int (length ws)" by auto
  let ?lead = "if i > 0 then [Sprint bc tee] else []"
  let ?leadp = "if i > 0 then tee else []"
  let ?new = "?lead @ [Sprint bc seg] @ parts"
  let ?p = "(?leadp @ seg) @ p"
  have "ruleParts bc tee i (w # ws) = Some ?new" using seg(1) parts(1) by simp
  moreover have "stripsTo (concat ?new) ?p"
  proof -
    have "stripsTo (concat ?lead) ?leadp"
      using te by (simp add: stripsTo_Nil stripsTo_Sprint)
    from stripsTo_append [OF stripsTo_append [OF this stripsTo_Sprint [OF seg(2), of bc]] parts(2)]
    show ?thesis by simp
  qed
  moreover have "newline \<notin> set (concat ?new)"
    using seg(3) parts(3) tn by (simp add: Sprint_no_newline)
  moreover have "StringWidth tbl ?p
      = sum_list (w # ws) + 3 * int (length (w # ws)) - (if i = 0 \<and> w # ws \<noteq> [] then 1 else 0)"
    using seg(4) parts(4) tw by (simp add: StringWidth_append StringWidth_Nil)
  ultimately show ?case by blast
qed

lemma border_line_ok:
  assumes h: "StringWidth tbl BoxHorizontal = 1" and tw: "StringWidth tbl tee = 1"
    and te: "escape \<notin> set tee" and tn: "newline \<notin> set tee"
    and l: "StringWidth tbl left = 1" "escape \<notin> set left" "newline \<notin> set left"
    and r: "StringWidth tbl right = 1" "escape \<notin> set right" "newline \<notin> set right"
    and ws: "ws \<noteq> []" "\<forall>w \<in> set ws. 0 < w"
  shows "\<exists>line. do { parts \<leftarrow> ruleParts bc tee 0 ws;
                     Some (Join ([Sprint bc left] @ parts @ [Sprint bc right]) []) } = Some line
           \<and> MeasureText tbl line = sum_list ws + 3 * int (length ws) + 1
           \<and> newline \<notin> set line"
proof -
  from ruleParts_ok [OF h tw te tn ws(2), of bc 0]
  obtain parts p where parts: "ruleParts bc tee 0 ws = Some parts"
    "stripsTo (concat parts) p" "newline \<notin> set (concat parts)"
    "StringWidth tbl p = sum_list ws + 3 * int (length ws) - 1" using ws(1) by auto
  let ?line = "Sprint bc left @ concat parts @ Sprint bc right"
  have "do { parts \<leftarrow> ruleParts bc tee 0 ws;
             Some (Join ([Sprint bc left] @ parts @ [Sprint bc right]) []) } = Some ?line"
    using parts(1) by (simp add: Join_empty_sep)
  moreover have "stripsTo ?line (left @ p @ right)"
    by (intro stripsTo_append stripsTo_Sprint l r parts(2))
  then have "MeasureText tbl ?line = sum_list ws + 3 * int (length ws) + 1"
    using parts(4) l(1) r(1) by (simp add: stripsTo_measure StringWidth_append)
  moreover have "newline \<notin> set ?line"
    using parts(3) l(3) r(3) by (simp add: Sprint_no_newline)
  ultimately show ?thesis by blast
qed

lemma renderRow_ok:
  assumes g: "StringWidth tbl BoxVertical = 1"
    and clean: "\<forall>c \<in> set cells. escape \<notin> set c \<and> newline \<notin> set c"
    and ws: "\<forall>w \<in> set (tab_columnWidths t). 0 < w \<and> StringWidth tbl [ellipsis] \<le> w"
  shows "\<exists>line. renderRow tbl t cells cc bc isHeader = Some line
           \<and> MeasureText tbl line
               = sum_list (tab_columnWidths t) + 3 * int (length (tab_columnWidths t)) + 1
           \<and> newline \<notin> set line"
proof -
  from rowParts_ok [OF g clean ws, of t cc bc 0]
  obtain parts p where parts: "rowParts tbl t cells cc bc 0 (tab_columnWidths t) = Some parts"
    "stripsTo (concat parts) p" "newline \<notin> set (concat parts)"
    "StringWidth tbl p = sum_list (tab_columnWidths t) + 3 * int (length (tab_columnWidths t))"
    by blast
  let ?line = "Sprint bc BoxVertical @ concat parts"
  have "renderRow tbl t cells cc bc isHeader = Some ?line"
    using parts(1) by (simp add: renderRow_def Join_empty_sep)
  moreover have "stripsTo ?line (BoxVertical @ p)"
    by (intro stripsTo_append stripsTo_Sprint glyphs_clean parts(2))
  then have "MeasureText tbl ?line
      = sum_list (tab_columnWidths t) + 3 * int (length (tab_columnWidths t)) + 1"
    using parts(4) g by (simp add: stripsTo_measure StringWidth_append)
  moreover have "newline \<notin> set ?line"
    using parts(3) by (simp add: Sprint_no_newline glyphs_clean)
  ultimately show ?thesis by blast
qed

lemma rowPartsNoBorder_ok:
  assumes clean: "\<forall>c \<in> set cells. escape \<notin> set c \<and> newline \<notin> set c"
  shows "ws \<noteq> [] \<Longrightarrow> \<forall>w \<in> set ws. 0 < w \<and> StringWidth tbl [ellipsis] \<le> w \<Longrightarrow>
         \<exists>parts p. rowPartsNoBorder tbl t cells cc i ws = Some parts \<and> parts \<noteq> []
           \<and> stripsTo (Join parts [space]) p \<and> newline \<notin> set (Join parts [space])
           \<and> StringWidth tbl p = sum_list ws + int (length ws) - 1"
proof (induction ws arbitrary: i)
  case Nil
  then show ?case by simp
next
  case (Cons w ws)
  have w: "0 < w" "StringWidth tbl [ellipsis] \<le> w"
    and rest: "\<forall>w \<in> set ws. 0 < w \<and> StringWidth tbl [ellipsis] \<le> w"
    using Cons.prems(2) by simp_all
  from renderCell_ok [OF w clean, of t cc i]
  obtain padded where padded: "renderCell tbl t cells cc i w = Some (Sprint cc padded)"
    "escape \<notin> set padded" "newline \<notin> set padded" "StringWidth tbl padded = w" by blast
  show ?case
  proof (cases "ws = []")
    case True
    have "rowPartsNoBorder tbl t cells cc i (w # ws) = Some [Sprint cc padded]"
      using True padded(1) by simp
    moreover have "stripsTo (Join [Sprint cc padded] [space]) padded"
      using padded(2) by (simp add: stripsTo_Sprint)
    moreover have "newline \<notin> set (Join [Sprint cc padded] [space])"
      using padded(3) by (simp add: Sprint_no_newline)
    moreover have "StringWidth tbl padded = sum_list (w # ws) + int (length (w # ws)) - 1"
      using True padded(4) by simp
    ultimately show ?thesis by blast
  next
    case False
    from Cons.IH [OF False rest, of "Suc i"]
    obtain parts p where parts: "rowPartsNoBorder tbl t cells cc (Suc i) ws = Some parts"
      "parts \<noteq> []" "stripsTo (Join parts [space]) p" "newline \<notin> set (Join parts [space])"
      "StringWidth tbl p = sum_list ws + int (length ws) - 1" by blast
    let ?new = "Sprint cc padded # parts"
    have j: "Join ?new [space] = Sprint cc padded @ [space] @ Join parts [space]"
      using parts(2) by (rule Join_Cons_more)
    have "rowPartsNoBorder tbl t cells cc i (w # ws) = Some ?new"
      using padded(1) parts(1) by simp
    moreover have "?new \<noteq> []" by simp
    moreover have "stripsTo (Join ?new [space]) (padded @ [space] @ p)"
      unfolding j
      by (intro stripsTo_append stripsTo_Sprint padded(2) parts(3) stripsTo_plain)
         (simp add: escape_def space_def)
    moreover have "newline \<notin> set (Join ?new [space])"
      unfolding j using padded(3) parts(4)
      by (simp add: Sprint_no_newline) (simp add: newline_def space_def)
    moreover have "StringWidth tbl (padded @ [space] @ p)
        = sum_list (w # ws) + int (length (w # ws)) - 1"
      using padded(4) parts(5)
      by (simp add: StringWidth_append StringWidth_Cons StringWidth_Nil RuneWidth_def space_def)
    ultimately show ?thesis by blast
  qed
qed

lemma renderRowNoBorder_ok:
  assumes clean: "\<forall>c \<in> set cells. escape \<notin> set c \<and> newline \<notin> set c"
    and ne: "tab_columnWidths t \<noteq> []"
    and ws: "\<forall>w \<in> set (tab_columnWidths t). 0 < w \<and> StringWidth tbl [ellipsis] \<le> w"
  shows "\<exists>line. renderRowNoBorder tbl t cells cc = Some line
           \<and> MeasureText tbl line
               = sum_list (tab_columnWidths t) + int (length (tab_columnWidths t)) - 1
           \<and> newline \<notin> set line"
proof -
  from rowPartsNoBorder_ok [OF clean ne ws, of t cc 0]
  obtain parts p where parts: "rowPartsNoBorder tbl t cells cc 0 (tab_columnWidths t) = Some parts"
    "stripsTo (Join parts [space]) p" "newline \<notin> set (Join parts [space])"
    "StringWidth tbl p = sum_list (tab_columnWidths t) + int (length (tab_columnWidths t)) - 1"
    by blast
  have "renderRowNoBorder tbl t cells cc = Some (Join parts [space])"
    using parts(1) by (simp add: renderRowNoBorder_def)
  with parts(2-4) show ?thesis by (simp add: stripsTo_measure)
qed

lemma concat_replicate_single: "concat (replicate k [x]) = replicate k x"
  by (induction k) simp_all

lemma StringWidth_dashes: "StringWidth tbl (replicate k 45) = int k"
  by (induction k) (simp_all add: StringWidth_def RuneWidth_def)

lemma dash_rule:
  assumes "0 \<le> n"
  shows "\<exists>line. Repeat [45] n = Some line \<and> MeasureText tbl line = n \<and> newline \<notin> set line"
proof -
  have e: "escape \<notin> set (replicate (nat n) 45)" by (simp add: escape_def)
  have "Repeat [45] n = Some (replicate (nat n) 45)"
    using assms by (simp add: Repeat_def concat_replicate_single)
  moreover have "MeasureText tbl (replicate (nat n) 45) = n"
    using assms by (simp add: MeasureText_plain [OF e] StringWidth_dashes)
  moreover have "newline \<notin> set (replicate (nat n) 45)" by (simp add: newline_def)
  ultimately show ?thesis by blast
qed

lemma sum_list_pos: "\<forall>w \<in> set ws. (0::int) < w \<Longrightarrow> int (length ws) \<le> sum_list ws"
  by (induction ws) auto

lemma Table_Render_ok:
  assumes vis: "\<not> IsHidden (tab_component t)" and hd: "tab_headers t \<noteq> []"
    and ne: "tab_columnWidths t \<noteq> []"
    and ws: "\<forall>w \<in> set (tab_columnWidths t). 0 < w \<and> StringWidth tbl [ellipsis] \<le> w"
    and g: "narrowTableGlyphs tbl"
    and clean: "\<forall>cells \<in> set (tab_headers t # tab_rows t).
                  \<forall>c \<in> set cells. escape \<notin> set c \<and> newline \<notin> set c"
  shows "\<exists>out. Table_Render tbl t theme = Some out
           \<and> (\<forall>line \<in> set (SplitLines out). MeasureText tbl line
                 = (if tab_border t
                    then sum_list (tab_columnWidths t) + 3 * int (length (tab_columnWidths t)) + 1
                    else sum_list (tab_columnWidths t) + int (length (tab_columnWidths t)) - 1))"
proof -
  define bc where "bc = (case tab_borderStyle t of None \<Rightarrow> Border theme | Some c \<Rightarrow> c)"
  define hc where "hc = (case tab_headerStyle t of None \<Rightarrow> Header theme | Some c \<Rightarrow> c)"
  define rc where "rc = (case tab_rowStyle t of None \<Rightarrow> Primary theme | Some c \<Rightarrow> c)"
  define ac where "ac = (case tab_altRowStyle t of None \<Rightarrow> Secondary theme | Some c \<Rightarrow> c)"
  note gw = narrowTableGlyphs_widths [OF g]
  have pos: "\<forall>w \<in> set (tab_columnWidths t). 0 < w" using ws by simp
  have hclean: "\<forall>c \<in> set (tab_headers t). escape \<notin> set c \<and> newline \<notin> set c"
    using clean by simp
  have rclean: "\<And>row. row \<in> set (tab_rows t) \<Longrightarrow> \<forall>c \<in> set row. escape \<notin> set c \<and> newline \<notin> set c"
    using clean by simp
  show ?thesis
  proof (cases "tab_border t")
    case True
    let ?L = "sum_list (tab_columnWidths t) + 3 * int (length (tab_columnWidths t)) + 1"
    let ?ok = "\<lambda>line. MeasureText tbl line = ?L \<and> newline \<notin> set line"
    from border_line_ok [OF gw(5) gw(10) tees_clean(4) tees_clean(9) gw(1) glyphs_clean(1)
        glyphs_clean(7) gw(2) glyphs_clean(2) glyphs_clean(8) ne pos, of bc]
    obtain top where top: "renderTopBorder t bc = Some top" "?ok top"
      unfolding renderTopBorder_def by blast
    from border_line_ok [OF gw(5) gw(8) tees_clean(2) tees_clean(7) gw(7) tees_clean(1)
        tees_clean(6) gw(9) tees_clean(3) tees_clean(8) ne pos, of bc]
    obtain sep where sep: "renderSeparator t bc = Some sep" "?ok sep"
      unfolding renderSeparator_def by blast
    from border_line_ok [OF gw(5) gw(11) tees_clean(5) tees_clean(10) gw(3) glyphs_clean(3)
        glyphs_clean(9) gw(4) glyphs_clean(4) glyphs_clean(10) ne pos, of bc]
    obtain bottom where bottom: "renderBottomBorder t bc = Some bottom" "?ok bottom"
      unfolding renderBottomBorder_def by blast
    from renderRow_ok [OF gw(6) hclean ws, of hc bc True]
    obtain header where header: "renderRow tbl t (tab_headers t) hc bc True = Some header"
      "?ok header" by blast
    have "\<forall>x \<in> set (enumerate 0 (tab_rows t)).
            \<exists>line. (\<lambda>(i, row). renderRow tbl t row (if i mod 2 = 0 then rc else ac) bc False) x = Some line \<and> ?ok line"
    proof
      fix x assume x: "x \<in> set (enumerate 0 (tab_rows t))"
      obtain i row where ir: "x = (i, row)" by (cases x)
      with x have "row \<in> set (tab_rows t)" by (auto simp: in_set_enumerate_eq)
      from renderRow_ok [OF gw(6) rclean [OF this] ws, of "if i mod 2 = 0 then rc else ac" bc False] ir
      show "\<exists>line. (\<lambda>(i, row). renderRow tbl t row (if i mod 2 = 0 then rc else ac) bc False) x = Some line \<and> ?ok line"
        by simp
    qed
    from sequenceOpt_all [OF this]
    obtain rows where rows:
      "sequenceOpt (map (\<lambda>(i, row). renderRow tbl t row (if i mod 2 = 0 then rc else ac) bc False)
                        (enumerate 0 (tab_rows t))) = Some rows"
      "\<forall>line \<in> set rows. ?ok line" by blast
    let ?lines = "[top, header, sep] @ rows @ [bottom]"
    have "Table_Render tbl t theme = Some (Join ?lines [newline])"
      using vis hd True top(1) header(1) sep(1) rows(1) bottom(1)
      by (simp add: Table_Render_def Let_def bc_def [symmetric] hc_def [symmetric]
          rc_def [symmetric] ac_def [symmetric])
    moreover have all: "\<forall>line \<in> set ?lines. ?ok line"
      using top(2) header(2) sep(2) rows(2) bottom(2) by auto
    then have "SplitLines (Join ?lines [newline]) = ?lines"
      by (intro SplitLines_Join) simp_all
    ultimately show ?thesis using all True by simp
  next
    case False
    let ?L = "sum_list (tab_columnWidths t) + int (length (tab_columnWidths t)) - 1"
    let ?ok = "\<lambda>line. MeasureText tbl line = ?L \<and> newline \<notin> set line"
    from renderRowNoBorder_ok [OF hclean ne ws, of hc]
    obtain header where header: "renderRowNoBorder tbl t (tab_headers t) hc = Some header"
      "?ok header" by blast
    have len: "0 < length (tab_columnWidths t)" using ne by simp
    have total: "getTotalWidth t = ?L"
    proof (cases "length (tab_columnWidths t) > 1")
      case True
      then show ?thesis by (simp add: getTotalWidth_def Let_def)
    next
      case one: False
      with len have "length (tab_columnWidths t) = 1" by linarith
      then show ?thesis by (simp add: getTotalWidth_def Let_def)
    qed
    have "0 \<le> getTotalWidth t" using sum_list_pos [OF pos] len unfolding total by linarith
    from dash_rule [OF this, of tbl]
    obtain rule where rule: "Repeat [45] (getTotalWidth t) = Some rule" "?ok rule"
      unfolding total by blast
    have "\<forall>x \<in> set (enumerate 0 (tab_rows t)).
            \<exists>line. (\<lambda>(i, row). renderRowNoBorder tbl t row (if i mod 2 = 0 then rc else ac)) x = Some line \<and> ?ok line"
    proof
      fix x assume x: "x \<in> set (enumerate 0 (tab_rows t))"
      obtain i row where ir: "x = (i, row)" by (cases x)
      with x have "row \<in> set (tab_rows t)" by (auto simp: in_set_enumerate_eq)
      from renderRowNoBorder_ok [OF rclean [OF this] ne ws, of "if i mod 2 = 0 then rc else ac"] ir
      show "\<exists>line. (\<lambda>(i, row). renderRowNoBorder tbl t row (if i mod 2 = 0 then rc else ac)) x = Some line \<and> ?ok line"
        by simp
    qed
    from sequenceOpt_all [OF this]
    obtain rows where rows:
      "sequenceOpt (map (\<lambda>(i, row). renderRowNoBorder tbl t row (if i mod 2 = 0 then rc else ac))
                        (enumerate 0 (tab_rows t))) = Some rows"
      "\<forall>line \<in> set rows. ?ok line" by blast
    let ?lines = "[header, rule] @ rows"
    have "Table_Render tbl t theme = Some (Join ?lines [newline])"
      using vis hd False header(1) rule(1) rows(1)
      by (simp add: Table_Render_def Let_def bc_def [symmetric] hc_def [symmetric]
          rc_def [symmetric] ac_def [symmetric])
    moreover have all: "\<forall>line \<in> set ?lines. ?ok line"
      using header(2) rule(2) rows(2) by auto
    then have "SplitLines (Join ?lines [newline]) = ?lines"
      by (intro SplitLines_Join) simp_all
    ultimately show ?thesis using all False by simp
  qed
qed

text \<open>
  Claim C3, as amended. \<open>ColumnWidths\<close> replaces the column widths by the supplied ones, and
  rendering uses the widths in place: for a visible table with headers and at least one
  column, with every width positive and at least the measured width of the marker, under a
  width table that gives the table glyphs one column, and with headers and cells free of
  escape and newline runes, \<open>Table.Render\<close> returns without panic and every line of its
  output measures the sum of the widths plus three columns for each column plus one with
  borders, and the sum of the widths plus one column between neighbours without. The
  supplied widths do not switch off the growth: a row added afterwards with \<open>AddRow\<close>,
  with cells free of escape runes, raises column \<open>i\<close> to the measured width of its cell \<open>i\<close>
  when the cell is wider, and leaves the supplied width where the cell is not wider or the
  row has no such cell; the number of columns stays the same.
\<close>

theorem C3_explicit_widths_amended:
  "tab_columnWidths (ColumnWidths t widths) = widths
   \<and> length (tab_columnWidths (AddRow tbl (ColumnWidths t widths) row)) = length widths
   \<and> ((\<forall>cell \<in> set row. escape \<notin> set cell) \<longrightarrow>
        (\<forall>i < length widths.
           tab_columnWidths (AddRow tbl (ColumnWidths t widths) row) ! i =
             (if i < length row then max (widths ! i) (MeasureText tbl (row ! i))
              else widths ! i)))
   \<and> (\<not> IsHidden (tab_component t) \<and> tab_headers t \<noteq> [] \<and> widths \<noteq> []
        \<and> (\<forall>w \<in> set widths. 0 < w \<and> MeasureText tbl [ellipsis] \<le> w)
        \<and> narrowTableGlyphs tbl
        \<and> (\<forall>cells \<in> set (tab_headers t # tab_rows t).
              \<forall>c \<in> set cells. escape \<notin> set c \<and> newline \<notin> set c)
      \<longrightarrow> (\<exists>out. Table_Render tbl (ColumnWidths t widths) theme = Some out
             \<and> (\<forall>line \<in> set (SplitLines out). MeasureText tbl line =
                   (if tab_border t then sum_list widths + 3 * int (length widths) + 1
                    else sum_list widths + int (length widths) - 1))))"
proof (intro conjI impI)
  show "tab_columnWidths (ColumnWidths t widths) = widths"
    by (simp add: ColumnWidths_def)
  show "length (tab_columnWidths (AddRow tbl (ColumnWidths t widths) row)) = length widths"
    using AddRow_widths_raw [of t widths tbl row] by blast
next
  assume clean: "\<forall>cell \<in> set row. escape \<notin> set cell"
  show "\<forall>i < length widths.
           tab_columnWidths (AddRow tbl (ColumnWidths t widths) row) ! i =
             (if i < length row then max (widths ! i) (MeasureText tbl (row ! i))
              else widths ! i)"
  proof (intro allI impI)
    fix i assume i: "i < length widths"
    have raw: "tab_columnWidths (AddRow tbl (ColumnWidths t widths) row) ! i =
             (if i < length row then max (widths ! i) (StringWidth tbl (row ! i))
              else widths ! i)"
      using AddRow_widths_raw [of t widths tbl row] i by blast
    show "tab_columnWidths (AddRow tbl (ColumnWidths t widths) row) ! i =
             (if i < length row then max (widths ! i) (MeasureText tbl (row ! i))
              else widths ! i)"
    proof (cases "i < length row")
      case True
      then have "escape \<notin> set (row ! i)" using clean by simp
      then show ?thesis using raw by (simp add: MeasureText_plain)
    next
      case False
      then show ?thesis using raw by simp
    qed
  qed
next
  assume a: "\<not> IsHidden (tab_component t) \<and> tab_headers t \<noteq> [] \<and> widths \<noteq> []
        \<and> (\<forall>w \<in> set widths. 0 < w \<and> MeasureText tbl [ellipsis] \<le> w)
        \<and> narrowTableGlyphs tbl
        \<and> (\<forall>cells \<in> set (tab_headers t # tab_rows t).
              \<forall>c \<in> set cells. escape \<notin> set c \<and> newline \<notin> set c)"
  let ?t = "ColumnWidths t widths"
  have e: "escape \<notin> set [ellipsis]" by (simp add: escape_def ellipsis_def)
  have vis: "\<not> IsHidden (tab_component ?t)" and hd: "tab_headers ?t \<noteq> []"
    and ne: "tab_columnWidths ?t \<noteq> []"
    and ws: "\<forall>w \<in> set (tab_columnWidths ?t). 0 < w \<and> StringWidth tbl [ellipsis] \<le> w"
    and g: "narrowTableGlyphs tbl"
    and clean: "\<forall>cells \<in> set (tab_headers ?t # tab_rows ?t).
                  \<forall>c \<in> set cells. escape \<notin> set c \<and> newline \<notin> set c"
    using a by (simp_all add: ColumnWidths_def MeasureText_plain [OF e])
  have f: "tab_columnWidths ?t = widths" "tab_border ?t = tab_border t"
    by (simp_all add: ColumnWidths_def)
  from Table_Render_ok [OF vis hd ne ws g clean, of theme]
  show "\<exists>out. Table_Render tbl ?t theme = Some out
             \<and> (\<forall>line \<in> set (SplitLines out). MeasureText tbl line =
                   (if tab_border t then sum_list widths + 3 * int (length widths) + 1
                    else sum_list widths + int (length widths) - 1))"
    unfolding f .
qed

lemma fixedTable_fields:
  "tab_component fixedTable = NewComponent"
  "tab_headers fixedTable = [str ''Name'', str ''Role'']"
  "tab_rows fixedTable = [[str ''Alice'', str ''Developer'']]"
  "tab_border fixedTable"
  by (simp_all add: fixedTable_def AddRow_def updateColumnWidthsForRow_def staffTable_def
      Headers_def NewTable_def Let_def)

lemma narrowTableGlyphs_sampleTable: "narrowTableGlyphs sampleTable"
  by (simp add: narrowTableGlyphs_def sampleTable_def BoxTopLeft_def BoxTopRight_def
      BoxBottomLeft_def BoxBottomRight_def BoxHorizontal_def BoxVertical_def BoxTee_def
      BoxCross_def BoxTeeRight_def BoxTeeTop_def BoxTeeBottom_def)

theorem C3_explicit_widths_amended_witness:
  "tab_columnWidths (fixedTable) = [5, 9]
   \<and> tab_columnWidths (ColumnWidths fixedTable [3, 6]) = [3, 6]
   \<and> escape \<notin> set (str ''hello'')
   \<and> tab_columnWidths (AddRow sampleTable (ColumnWidths fixedTable [3, 6]) [str ''hello'']) ! 0
       = max 3 (MeasureText sampleTable (str ''hello''))
   \<and> \<not> IsHidden (tab_component fixedTable) \<and> tab_headers fixedTable \<noteq> []
   \<and> MeasureText sampleTable [ellipsis] \<le> 3
   \<and> narrowTableGlyphs sampleTable
   \<and> (\<exists>out. Table_Render sampleTable (ColumnWidths fixedTable [3, 6]) DefaultTheme = Some out
         \<and> (\<forall>line \<in> set (SplitLines out). MeasureText sampleTable line = 16))"
proof -
  have cw: "tab_columnWidths fixedTable = [5, 9]"
    by (simp add: fixedTable_def staffTable_row)
  have c1: "\<forall>cell \<in> set [str ''hello'']. escape \<notin> set cell"
    by (simp add: str_def escape_def)
  have m: "MeasureText sampleTable [ellipsis] = 1"
    by (simp add: MeasureText_def StripANSI_def StringWidth_def RuneWidth_def sampleTable_def
        ellipsis_def escape_def)
  have vis: "\<not> IsHidden (tab_component fixedTable)"
    by (simp add: fixedTable_fields IsHidden_def NewComponent_def)
  have hd: "tab_headers fixedTable \<noteq> []" by (simp add: fixedTable_fields)
  have ws: "\<forall>w \<in> set [3, 6::int]. 0 < w \<and> MeasureText sampleTable [ellipsis] \<le> w"
    by (simp add: m)
  have clean: "\<forall>cells \<in> set (tab_headers fixedTable # tab_rows fixedTable).
      \<forall>c \<in> set cells. escape \<notin> set c \<and> newline \<notin> set c"
    by (simp add: fixedTable_fields str_def escape_def newline_def)
  note inst = C3_explicit_widths_amended
      [of fixedTable "[3, 6]" sampleTable "[str ''hello'']" DefaultTheme]
  have "tab_columnWidths (AddRow sampleTable (ColumnWidths fixedTable [3, 6]) [str ''hello'']) ! 0
       = max 3 (MeasureText sampleTable (str ''hello''))"
    using inst c1 by simp
  moreover have "\<exists>out. Table_Render sampleTable (ColumnWidths fixedTable [3, 6]) DefaultTheme
      = Some out \<and> (\<forall>line \<in> set (SplitLines out). MeasureText sampleTable line = 16)"
    using inst vis hd ws narrowTableGlyphs_sampleTable clean
    by (simp add: fixedTable_fields)
  ultimately show ?thesis
    using cw c1 vis hd m narrowTableGlyphs_sampleTable inst by simp
qed

text \<open>
  The growth follows the width of the cell with its escape sequences: the red \<open>"FAIL"\<close>
  measures 4 and raises a column of width 4 to 11.
\<close>

lemma AddRow_coloured_cell:
  "MeasureText sampleTable colouredFail = 4
   \<and> tab_columnWidths staffTable = [4, 4]
   \<and> tab_columnWidths (AddRow sampleTable staffTable [colouredFail]) = [11, 4]"
  by (simp add: colouredFail_def MeasureText_def StripANSI_def escape_def isLetter_def
      AddRow_def updateColumnWidthsForRow_def staffTable_widths StringWidth_def RuneWidth_def
      str_def)

end
